theory Spec2Isabelle
  imports Complex_Main
begin

text \<open>
  A model of layers of the repository (linear and multilinear layers, normalization
  layers, flatten, crop and pad layers, and the dispatch that switches a tree of layers
  to evaluation mode), with the properties of the specification proved about it. The
  definitions follow the Python sources function by function and keep their names; the
  arrays and array primitives of the host framework are modelled in the first sections.
\<close>

section \<open>Errors and arrays\<close>

text \<open>
  The layers of the repository are Python classes whose constructors and calls either
  return a value or raise. A raise is a value \<open>Inl e\<close> of the result type
  \<open>error + 'a\<close>.
\<close>

datatype error = ValueError | TypeError | IndexError | AttributeError

text \<open>
  An array of the host framework is a shape together with its elements in row-major
  order. Array elements are kept polymorphic; where a layer computes with them they
  are real numbers, so rounding is outside the model.
\<close>

datatype 'a ndarray = NDArray (shape: "nat list") (data: "'a list")

definition ndim :: "'a ndarray \<Rightarrow> nat" where
  "ndim a = length (shape a)"

definition wf_array :: "'a ndarray \<Rightarrow> bool" where
  "wf_array a = (length (data a) = prod_list (shape a))"

text \<open>
  \<open>ravel sh idx\<close> is the row-major offset of the multi-index \<open>idx\<close> in an array of
  shape \<open>sh\<close>; \<open>indices sh\<close> lists the multi-indices of the shape in row-major order;
  \<open>item a idx\<close> reads \<open>a[idx]\<close> and \<open>tabulate sh f\<close> builds the array of shape
  \<open>sh\<close> whose element at \<open>idx\<close> is \<open>f idx\<close>.
\<close>

fun ravel :: "nat list \<Rightarrow> nat list \<Rightarrow> nat" where
  "ravel (n # sh) (i # idx) = i * prod_list sh + ravel sh idx"
| "ravel _ _ = 0"

fun valid_index :: "nat list \<Rightarrow> nat list \<Rightarrow> bool" where
  "valid_index [] [] = True"
| "valid_index (n # sh) (i # idx) = (i < n \<and> valid_index sh idx)"
| "valid_index _ _ = False"

fun indices :: "nat list \<Rightarrow> nat list list" where
  "indices [] = [[]]"
| "indices (n # sh) = concat (map (\<lambda>i. map ((#) i) (indices sh)) [0..<n])"

definition item :: "'a ndarray \<Rightarrow> nat list \<Rightarrow> 'a" where
  "item a idx = data a ! ravel (shape a) idx"

definition tabulate :: "nat list \<Rightarrow> (nat list \<Rightarrow> 'a) \<Rightarrow> 'a ndarray" where
  "tabulate sh f = NDArray sh (map f (indices sh))"

type_synonym key = nat

subsection \<open>Python slices\<close>

text \<open>
  \<open>slice_bound n i\<close> is where Python puts the bound \<open>i\<close> of a slice of a sequence
  of length \<open>n\<close>: a negative bound counts from the end, and every bound is clipped to
  the sequence. \<open>py_take xs hi\<close> is \<open>xs[:hi]\<close> and \<open>py_drop xs lo\<close> is \<open>xs[lo:]\<close>.
\<close>

definition slice_bound :: "nat \<Rightarrow> int \<Rightarrow> nat" where
  "slice_bound n i = (if i < 0 then nat (max 0 (i + int n)) else min (nat i) n)"

definition py_take :: "'a list \<Rightarrow> int \<Rightarrow> 'a list" where
  "py_take xs hi = take (slice_bound (length xs) hi) xs"

definition py_drop :: "'a list \<Rightarrow> int \<Rightarrow> 'a list" where
  "py_drop xs lo = drop (slice_bound (length xs) lo) xs"

subsection \<open>Primitives of the host framework\<close>

text \<open>
  The array primitives the layers call belong to the host framework, not to the
  repository. Each is written out by what it returns at every index, and by the
  condition under which it raises.

  \<open>reshape\<close> keeps the elements in row-major order and raises when the sizes differ.
  \<open>collapse\<close> (\<open>jax.lax.collapse\<close>) merges the dimensions of the Python slice
  \<open>[start_dimension:stop_dimension]\<close> of the shape into one.
\<close>

definition reshape :: "'a ndarray \<Rightarrow> nat list \<Rightarrow> error + 'a ndarray" where
  "reshape a sh =
     (if prod_list sh = prod_list (shape a) then Inr (NDArray sh (data a)) else Inl TypeError)"

definition collapse :: "'a ndarray \<Rightarrow> int \<Rightarrow> int \<Rightarrow> error + 'a ndarray" where
  "collapse operand start_dimension stop_dimension =
     (let lo = slice_bound (ndim operand) start_dimension;
          hi = slice_bound (ndim operand) stop_dimension
      in if hi < lo then Inl ValueError
         else reshape operand
                (take lo (shape operand)
                 @ [prod_list (drop lo (take hi (shape operand)))]
                 @ drop hi (shape operand)))"

text \<open>
  \<open>index_first a c\<close> is \<open>a[c]\<close>. \<open>vmap f a\<close> (\<open>jax.vmap\<close> with the default axes)
  applies \<open>f\<close> to every \<open>a[c]\<close> and stacks the results along a new leading axis. The
  host traces \<open>f\<close> once on an abstract array, which has the shape of \<open>a[c]\<close> and no
  elements: the shape of the result and whether the call raises are read off there.
\<close>

definition index_first :: "'a ndarray \<Rightarrow> nat \<Rightarrow> 'a ndarray" where
  "index_first a c =
     (let sh = tl (shape a); m = prod_list sh
      in NDArray sh (take m (drop (c * m) (data a))))"

definition vmap :: "('a ndarray \<Rightarrow> error + 'b ndarray) \<Rightarrow> 'a ndarray \<Rightarrow> error + 'b ndarray" where
  "vmap f a =
     (case shape a of
        [] \<Rightarrow> Inl ValueError
      | n # sh \<Rightarrow>
          (case f (NDArray sh []) of
             Inl e \<Rightarrow> Inl e
           | Inr p \<Rightarrow>
               Inr (tabulate (n # shape p)
                      (\<lambda>idx. item (projr (f (index_first a (hd idx)))) (tl idx)))))"

text \<open>
  \<open>dynamic_slice\<close> (\<open>jax.lax.dynamic_slice\<close>): a negative start counts from the end,
  every start is then clamped so that the slice lies inside the operand, and a slice
  larger than the operand raises.
\<close>

definition dynamic_slice :: "'a ndarray \<Rightarrow> int list \<Rightarrow> nat list \<Rightarrow> error + 'a ndarray" where
  "dynamic_slice operand start_indices slice_sizes =
     (if length start_indices \<noteq> ndim operand then Inl ValueError
      else if length slice_sizes \<noteq> ndim operand then Inl TypeError
      else if \<not> list_all2 (\<le>) slice_sizes (shape operand) then Inl TypeError
      else
        let starts = map (\<lambda>(st, (n, sz)).
                       let st' = (if st < 0 then st + int n else st)
                       in nat (max 0 (min st' (int n - int sz))))
                     (zip start_indices (zip (shape operand) slice_sizes))
        in Inr (tabulate slice_sizes (\<lambda>idx. item operand (map2 (+) starts idx))))"

text \<open>
  \<open>jnp_pad\<close> (\<open>jnp.pad\<close> in its constant mode): \<open>pad_width\<close> holds one
  \<open>(before, after)\<close> pair per axis, or a single pair for all axes.
\<close>

definition pad_shape :: "nat list \<Rightarrow> (nat \<times> nat) list \<Rightarrow> nat list" where
  "pad_shape sh pw = map (\<lambda>(n, (lo, hi)). lo + n + hi) (zip sh pw)"

definition in_interior :: "nat list \<Rightarrow> (nat \<times> nat) list \<Rightarrow> nat list \<Rightarrow> bool" where
  "in_interior sh pw idx =
     list_all (\<lambda>(i, (n, (lo, hi))). lo \<le> i \<and> i < lo + n) (zip idx (zip sh pw))"

definition unpad_index :: "(nat \<times> nat) list \<Rightarrow> nat list \<Rightarrow> nat list" where
  "unpad_index pw idx = map (\<lambda>(i, (lo, hi)). i - lo) (zip idx pw)"

definition broadcast_to_pairs :: "(nat \<times> nat) list \<Rightarrow> nat \<Rightarrow> error + (nat \<times> nat) list" where
  "broadcast_to_pairs nvals nd =
     (if nvals \<noteq> [] \<and> length nvals = nd then Inr nvals
      else if length nvals = 1 then Inr (replicate nd (hd nvals))
      else Inl ValueError)"

definition jnp_pad :: "'a ndarray \<Rightarrow> (nat \<times> nat) list \<Rightarrow> 'a \<Rightarrow> error + 'a ndarray" where
  "jnp_pad array pad_width constant_values =
     (case broadcast_to_pairs pad_width (ndim array) of
        Inl e \<Rightarrow> Inl e
      | Inr pw \<Rightarrow>
          Inr (tabulate (pad_shape (shape array) pw)
                 (\<lambda>idx. if in_interior (shape array) pw idx
                         then item array (unpad_index pw idx)
                         else constant_values)))"

section \<open>Reshaping layers (src/serket/_src/nn/reshape.py)\<close>

text \<open>
  Modelled from the spec: \<open>validate_spatial_nd\<close> (and \<open>_check_spatial_in_shape\<close> of
  the older padding module) is not among the sources. It is one of the simple
  precondition checks that raise on violation: the input of a layer with
  \<open>spatial_ndim\<close> spatial dimensions is channel first and has \<open>spatial_ndim + 1\<close>
  dimensions.
\<close>

definition validate_spatial_nd :: "nat \<Rightarrow> 'a ndarray \<Rightarrow> bool" where
  "validate_spatial_nd spatial_ndim x = (ndim x = spatial_ndim + 1)"

subsection \<open>flatten and unflatten\<close>

definition flatten :: "'a ndarray \<Rightarrow> int \<Rightarrow> int \<Rightarrow> error + 'a ndarray" where
  "flatten array start_dim end_dim =
     (let start_dim' = start_dim + (if start_dim \<ge> 0 then 0 else int (ndim array));
          end_dim' = end_dim + 1 + (if end_dim \<ge> 0 then 0 else int (ndim array))
      in collapse array start_dim' end_dim')"

definition unflatten :: "'a ndarray \<Rightarrow> int \<Rightarrow> nat list \<Rightarrow> error + 'a ndarray" where
  "unflatten array dim' shp =
     (let in_shape = shape array;
          out_shape = py_take in_shape dim' @ shp @ py_drop in_shape (dim' + 1)
      in reshape array out_shape)"

text \<open>
  The index in the flattened array of the element that has index \<open>idx\<close> in the array
  of shape \<open>sh\<close>: positions \<open>s..e\<close> of the index are replaced by their row-major
  offset in the collapsed dimensions.
\<close>

definition collapse_index :: "nat list \<Rightarrow> nat \<Rightarrow> nat \<Rightarrow> nat list \<Rightarrow> nat list" where
  "collapse_index sh s e idx =
     take s idx @ [ravel (drop s (take (Suc e) sh)) (drop s (take (Suc e) idx))] @ drop (Suc e) idx"

subsection \<open>CenterCropND\<close>

definition center_crop_nd :: "'a ndarray \<Rightarrow> nat list \<Rightarrow> error + 'a ndarray" where
  "center_crop_nd array sizes =
     (let shapes = shape array;
          starts = map (\<lambda>(shp, size). max (int shp div 2 - int size div 2) 0) (zip shapes sizes)
      in dynamic_slice array starts sizes)"

text \<open>
  The field \<open>size\<close> holds the canonicalized sizes, one extent per spatial axis;
  \<open>spatial_ndim\<close> is the property the subclasses \<open>CenterCrop1D\<close>, \<open>CenterCrop2D\<close>
  and \<open>CenterCrop3D\<close> fix.
\<close>

record CenterCropND =
  cc_size :: "nat list"
  cc_spatial_ndim :: nat

definition CenterCropND_call :: "CenterCropND \<Rightarrow> 'a ndarray \<Rightarrow> error + 'a ndarray" where
  "CenterCropND_call self x =
     (if \<not> validate_spatial_nd (cc_spatial_ndim self) x then Inl ValueError
      else vmap (\<lambda>a. center_crop_nd a (cc_size self)) x)"

text \<open>The start \<open>max(shape // 2 - size // 2, 0)\<close> of the crop along one axis.\<close>

definition center_start :: "nat \<Rightarrow> nat \<Rightarrow> nat" where
  "center_start shp sz = nat (max (int shp div 2 - int sz div 2) 0)"

subsection \<open>PadND\<close>

record 'a PadND =
  pd_padding :: "(nat \<times> nat) list"
  pd_value :: 'a
  pd_spatial_ndim :: nat

definition PadND_call :: "'a PadND \<Rightarrow> 'a ndarray \<Rightarrow> error + 'a ndarray" where
  "PadND_call self x =
     (if \<not> validate_spatial_nd (pd_spatial_ndim self) x then Inl ValueError
      else let v = pd_value self
           in vmap (\<lambda>a. jnp_pad a (pd_padding self) v) x)"

section \<open>The older PadND (src/serket/nn/padding.py)\<close>

record 'a PadND_legacy =
  lp_ndim :: nat
  lp_padding :: "(nat \<times> nat) list"
  lp_value :: 'a

definition PadND_legacy_call :: "'a PadND_legacy \<Rightarrow> 'a ndarray \<Rightarrow> error + 'a ndarray" where
  "PadND_legacy_call self x =
     (if \<not> validate_spatial_nd (lp_ndim self) x then Inl ValueError
      else jnp_pad x ((0, 0) # lp_padding self) (lp_value self))"

section \<open>GeneralLinear (src/serket/nn/linear.py)\<close>

text \<open>
  An initializer is called with the random key and the shape of the parameter.
  \<open>init_func_cb\<close> is not among the sources: the constructor below receives its
  result, which is \<open>None\<close> or a callable (the constructor tests the bias initializer
  against \<open>None\<close> and calls the weight initializer unguarded).
\<close>

type_synonym 'a init_func = "key \<Rightarrow> nat list \<Rightarrow> 'a ndarray"

definition shape_respecting :: "'a init_func \<Rightarrow> key \<Rightarrow> nat list \<Rightarrow> bool" where
  "shape_respecting f k sh = (shape (f k sh) = sh)"

record 'a GeneralLinear =
  gl_weight :: "'a ndarray"
  gl_bias :: "'a ndarray option"
  gl_in_features :: "nat list"
  gl_out_features :: nat
  gl_in_axes :: "int list"

definition GeneralLinear_init ::
  "nat list \<Rightarrow> nat \<Rightarrow> int list \<Rightarrow> 'a init_func option \<Rightarrow> 'a init_func option \<Rightarrow> key
    \<Rightarrow> error + 'a GeneralLinear" where
  "GeneralLinear_init in_features out_features in_axes weight_init_func bias_init_func k =
     (if length in_axes \<noteq> length in_features then Inl ValueError
      else case weight_init_func of
        None \<Rightarrow> Inl TypeError
      | Some winit \<Rightarrow>
          Inr \<lparr> gl_weight = winit k (in_features @ [out_features]),
                gl_bias = (case bias_init_func of
                             None \<Rightarrow> None
                           | Some binit \<Rightarrow> Some (binit k [out_features])),
                gl_in_features = in_features,
                gl_out_features = out_features,
                gl_in_axes = in_axes \<rparr>)"

definition ones_init :: "real init_func" where
  "ones_init k sh = NDArray sh (replicate (prod_list sh) 1)"

section \<open>Normalization layers (src/serket/_src/nn/normalization.py)\<close>

subsection \<open>Further primitives of the host framework\<close>

text \<open>Sequencing of calls that may raise: the first error ends the computation.\<close>

definition bind_err :: "error + 'a \<Rightarrow> ('a \<Rightarrow> error + 'b) \<Rightarrow> error + 'b" where
  "bind_err m f = (case m of Inl e \<Rightarrow> Inl e | Inr v \<Rightarrow> f v)"

text \<open>
  Indexing a Python list of length \<open>n\<close> with the integer \<open>i\<close>: a negative index
  counts from the end, and an index outside \<open>[-n, n)\<close> raises IndexError.
\<close>

definition py_index :: "nat \<Rightarrow> int \<Rightarrow> error + nat" where
  "py_index n i =
     (if 0 \<le> i \<and> i < int n then Inr (nat i)
      else if - int n \<le> i \<and> i < 0 then Inr (nat (i + int n))
      else Inl IndexError)"

text \<open>
  \<open>map_array\<close> applies a function to every element (unary functions, and binary
  operators with a Python scalar). \<open>binop\<close> is a binary operator on two arrays with
  broadcasting: the shapes are aligned at their last dimensions, a dimension of
  extent 1 is stretched, and incompatible shapes raise.
\<close>

definition map_array :: "('a \<Rightarrow> 'b) \<Rightarrow> 'a ndarray \<Rightarrow> 'b ndarray" where
  "map_array f a = NDArray (shape a) (map f (data a))"

definition broadcast_shapes :: "nat list \<Rightarrow> nat list \<Rightarrow> nat list option" where
  "broadcast_shapes s t =
     (let n = max (length s) (length t);
          s' = replicate (n - length s) 1 @ s;
          t' = replicate (n - length t) 1 @ t
      in if list_all2 (\<lambda>a b. a = b \<or> a = 1 \<or> b = 1) s' t'
         then Some (map2 (\<lambda>a b. if a = 1 then b else a) s' t')
         else None)"

definition bcast_index :: "nat list \<Rightarrow> nat list \<Rightarrow> nat list" where
  "bcast_index sh idx =
     map2 (\<lambda>n i. if n = 1 then 0 else i) sh (drop (length idx - length sh) idx)"

definition binop :: "('a \<Rightarrow> 'b \<Rightarrow> 'c) \<Rightarrow> 'a ndarray \<Rightarrow> 'b ndarray \<Rightarrow> error + 'c ndarray" where
  "binop f a b =
     (case broadcast_shapes (shape a) (shape b) of
        None \<Rightarrow> Inl TypeError
      | Some sh \<Rightarrow>
          Inr (tabulate sh (\<lambda>idx. f (item a (bcast_index (shape a) idx))
                                     (item b (bcast_index (shape b) idx)))))"

text \<open>
  \<open>jnp_mean_keepdims a axes\<close> is \<open>jnp.mean(a, axis=axes, keepdims=True)\<close>: the
  reduced axes keep extent 1, and the element at \<open>idx\<close> is the mean of the elements of
  \<open>a\<close> whose index agrees with \<open>idx\<close> outside the reduced axes.
  \<open>squeeze\<close> drops every dimension of extent 1.
\<close>

definition mean :: "real list \<Rightarrow> real" where
  "mean xs = sum_list xs / real (length xs)"

definition jnp_mean_keepdims :: "real ndarray \<Rightarrow> nat list \<Rightarrow> real ndarray" where
  "jnp_mean_keepdims a axes =
     tabulate (map (\<lambda>k. if k \<in> set axes then 1 else shape a ! k) [0..<ndim a])
       (\<lambda>idx. mean (map (item a)
                 (filter (\<lambda>j. list_all (\<lambda>k. k \<in> set axes \<or> j ! k = idx ! k) [0..<ndim a])
                         (indices (shape a)))))"

definition squeeze :: "'a ndarray \<Rightarrow> 'a ndarray" where
  "squeeze a = NDArray (filter (\<lambda>n. n \<noteq> 1) (shape a)) (data a)"

subsection \<open>Initializers\<close>

text \<open>
  Modelled from the spec: \<open>resolve_init\<close> is not among the sources. A layer is an
  immutable record of weight and bias arrays; by the docstrings of the layers an
  initializer argument is a name, a callable or \<open>None\<close>, where \<open>None\<close> gives no
  parameter (the forward functions test the parameter against \<open>None\<close>) and a callable
  is called with the key, the shape and the dtype. A name stands for its callable
  (\<open>init_ones\<close> and \<open>init_zeros\<close> are the defaults). The evaluation rule of BatchNorm
  passes callables that ignore their arguments and return the stored parameter, which
  may be \<open>None\<close>, with the key \<open>None\<close>.
\<close>

datatype 'a InitType = InitNone | InitCallable "key option \<Rightarrow> nat list \<Rightarrow> 'a ndarray option"

definition resolve_init :: "'a InitType \<Rightarrow> key option \<Rightarrow> nat list \<Rightarrow> 'a ndarray option" where
  "resolve_init init = (case init of InitNone \<Rightarrow> (\<lambda>_ _. None) | InitCallable f \<Rightarrow> f)"

definition init_ones :: "key option \<Rightarrow> nat list \<Rightarrow> real ndarray option" where
  "init_ones k sh = Some (NDArray sh (replicate (prod_list sh) 1))"

definition init_zeros :: "key option \<Rightarrow> nat list \<Rightarrow> real ndarray option" where
  "init_zeros k sh = Some (NDArray sh (replicate (prod_list sh) 0))"

subsection \<open>GroupNorm\<close>

text \<open>
  Modelled from the spec: \<open>positive_int_cb\<close> is not among the sources; it is one of
  the simple precondition checks that raise on violation, here that the value is a
  positive integer. The field \<open>eps\<close> is declared with the range check \<open>Range(0)\<close>,
  which runs when the constructor assigns it.

  The constructors and calls of the normalization layers are wrapped in
  \<open>maybe_lazy_init\<close> and \<open>maybe_lazy_call\<close>, which defer the construction when
  \<open>in_features\<close> is \<open>None\<close>. The model covers the constructor given an integer
  \<open>in_features\<close>, where the wrappers run the body below.
\<close>

record GroupNorm =
  gn_in_features :: int
  gn_groups :: int
  gn_eps :: real
  gn_weight :: "real ndarray option"
  gn_bias :: "real ndarray option"

definition positive_int_cb :: "int \<Rightarrow> error + int" where
  "positive_int_cb v = (if v \<le> 0 then Inl ValueError else Inr v)"

definition GroupNorm_init ::
  "int \<Rightarrow> key \<Rightarrow> int \<Rightarrow> real \<Rightarrow> real InitType \<Rightarrow> real InitType \<Rightarrow> error + GroupNorm" where
  "GroupNorm_init in_features k groups eps weight_init bias_init =
     bind_err (positive_int_cb in_features) (\<lambda>in_features'.
     bind_err (positive_int_cb groups) (\<lambda>groups'.
       if eps < 0 then Inl ValueError
       else if in_features mod groups \<noteq> 0 then Inl ValueError
       else Inr \<lparr>gn_in_features = in_features', gn_groups = groups', gn_eps = eps,
                 gn_weight = resolve_init weight_init (Some k) [nat in_features],
                 gn_bias = resolve_init bias_init (Some k) [nat in_features]\<rparr>))"

subsection \<open>BatchNorm and EvalNorm\<close>

record BatchNormState =
  running_mean :: "real ndarray"
  running_var :: "real ndarray"

text \<open>
  \<open>cond\<close> is \<open>jax.lax.cond\<close>: both branches are traced, so an error of either
  branch is an error of the call, and the two results must have the same shapes; the
  predicate then selects the result.
\<close>

definition same_avals :: "real ndarray \<times> BatchNormState \<Rightarrow> real ndarray \<times> BatchNormState \<Rightarrow> bool" where
  "same_avals p q =
     (shape (fst p) = shape (fst q)
      \<and> shape (running_mean (snd p)) = shape (running_mean (snd q))
      \<and> shape (running_var (snd p)) = shape (running_var (snd q)))"

definition cond ::
  "bool \<Rightarrow> ('x \<Rightarrow> error + real ndarray \<times> BatchNormState)
        \<Rightarrow> ('x \<Rightarrow> error + real ndarray \<times> BatchNormState)
        \<Rightarrow> 'x \<Rightarrow> error + real ndarray \<times> BatchNormState" where
  "cond pred true_fun false_fun operand =
     bind_err (true_fun operand) (\<lambda>t.
     bind_err (false_fun operand) (\<lambda>f.
       if same_avals t f then Inr (if pred then t else f) else Inl TypeError))"

text \<open>
  The two branches of \<open>_batchnorm_impl\<close>. The index \<open>ax\<close> is the position that the
  Python integer \<open>axis\<close> denotes. The collective \<open>pmean\<close> of the host framework, used
  when the layer has an \<open>axis_name\<close>, is a parameter of the model.
\<close>

definition eval_step ::
  "nat list \<Rightarrow> real \<Rightarrow> real ndarray \<times> BatchNormState \<Rightarrow> error + real ndarray \<times> BatchNormState" where
  "eval_step broadcast_shape eps xs =
     (let x = fst xs; state = snd xs
      in bind_err (reshape (running_mean state) broadcast_shape) (\<lambda>run_mean.
         bind_err (reshape (running_var state) broadcast_shape) (\<lambda>run_var.
         bind_err (binop (-) x run_mean) (\<lambda>centred.
         bind_err (binop (*) centred (map_array (\<lambda>v. 1 / sqrt (v + eps)) run_var)) (\<lambda>output.
           Inr (output, state))))))"

definition train_step ::
  "(string \<Rightarrow> real ndarray \<Rightarrow> real ndarray) \<Rightarrow> nat \<Rightarrow> real \<Rightarrow> real \<Rightarrow> string option
     \<Rightarrow> real ndarray \<times> BatchNormState \<Rightarrow> error + real ndarray \<times> BatchNormState" where
  "train_step pmean ax momentum eps axis_name xs =
     (let x = fst xs; state = snd xs;
          run_mean = running_mean state; run_var = running_var state;
          axes = take ax [0..<ndim x] @ drop (Suc ax) [0..<ndim x];
          batch_mean0 = jnp_mean_keepdims x axes;
          batch_mean = (case axis_name of None \<Rightarrow> batch_mean0 | Some name \<Rightarrow> pmean name batch_mean0)
      in bind_err (binop (-) (jnp_mean_keepdims (map_array (\<lambda>v. v * v) x) axes)
                             (map_array (\<lambda>v. v ^ 2) batch_mean)) (\<lambda>batch_var0.
         let batch_var = (case axis_name of None \<Rightarrow> batch_var0 | Some name \<Rightarrow> pmean name batch_var0)
         in bind_err (binop (-) x batch_mean) (\<lambda>centred.
            bind_err (binop (/) centred (map_array (\<lambda>v. sqrt (v + eps)) batch_var)) (\<lambda>output.
            bind_err (binop (+) (map_array (\<lambda>v. momentum * v) run_mean)
                                (map_array (\<lambda>v. (1 - momentum) * v) (squeeze batch_mean))) (\<lambda>run_mean'.
            bind_err (binop (+) (map_array (\<lambda>v. momentum * v) run_var)
                                (map_array (\<lambda>v. (1 - momentum) * v) (squeeze batch_var))) (\<lambda>run_var'.
              Inr (output, \<lparr>running_mean = run_mean', running_var = run_var'\<rparr>)))))))"

definition batchnorm_impl ::
  "(string \<Rightarrow> real ndarray \<Rightarrow> real ndarray) \<Rightarrow> real ndarray \<Rightarrow> BatchNormState \<Rightarrow> real \<Rightarrow> real
     \<Rightarrow> real ndarray option \<Rightarrow> real ndarray option \<Rightarrow> bool \<Rightarrow> int \<Rightarrow> string option
     \<Rightarrow> error + real ndarray \<times> BatchNormState" where
  "batchnorm_impl pmean x state momentum eps gamma beta evalution axis axis_name =
     bind_err (py_index (ndim x) axis) (\<lambda>ax.
       let broadcast_shape = (replicate (ndim x) 1)[ax := shape x ! ax]
       in bind_err (cond evalution (eval_step broadcast_shape eps)
                      (train_step pmean ax momentum eps axis_name) (x, state)) (\<lambda>os.
          bind_err (case gamma of
                      None \<Rightarrow> Inr (fst os)
                    | Some g \<Rightarrow> bind_err (reshape g broadcast_shape) (binop (*) (fst os))) (\<lambda>output.
          bind_err (case beta of
                      None \<Rightarrow> Inr output
                    | Some b \<Rightarrow> bind_err (reshape b broadcast_shape) (binop (+) output)) (\<lambda>output.
            Inr (output, snd os)))))"

record BatchNorm =
  bn_in_features :: nat
  bn_momentum :: real
  bn_eps :: real
  bn_weight_init :: "real InitType"
  bn_bias_init :: "real InitType"
  bn_axis :: int
  bn_axis_name :: "string option"
  bn_weight :: "real ndarray option"
  bn_bias :: "real ndarray option"

record EvalNorm =
  en_in_features :: nat
  en_momentum :: real
  en_eps :: real
  en_weight_init :: "real InitType"
  en_bias_init :: "real InitType"
  en_axis :: int
  en_axis_name :: "string option"
  en_weight :: "real ndarray option"
  en_bias :: "real ndarray option"

definition EvalNorm_init ::
  "nat \<Rightarrow> key option \<Rightarrow> real \<Rightarrow> real \<Rightarrow> real InitType \<Rightarrow> real InitType \<Rightarrow> int
     \<Rightarrow> string option \<Rightarrow> EvalNorm" where
  "EvalNorm_init in_features k momentum eps weight_init bias_init axis axis_name =
     \<lparr>en_in_features = in_features, en_momentum = momentum, en_eps = eps,
      en_weight_init = weight_init, en_bias_init = bias_init,
      en_axis = axis, en_axis_name = axis_name,
      en_weight = resolve_init weight_init k [in_features],
      en_bias = resolve_init bias_init k [in_features]\<rparr>"

text \<open>The state rule registered for BatchNorm: zeros and ones of shape \<open>(in_features,)\<close>.\<close>

definition tree_state_BatchNorm :: "nat \<Rightarrow> BatchNormState" where
  "tree_state_BatchNorm in_features =
     \<lparr>running_mean = NDArray [in_features] (replicate in_features 0),
      running_var = NDArray [in_features] (replicate in_features 1)\<rparr>"

text \<open>
  Both layers wrap the identity \<open>(x, state)\<close> in \<open>custom_vmap\<close>: called directly the
  layer returns its arguments, and under \<open>jax.vmap\<close> the registered rule runs on the
  whole batch \<open>x\<close>, whose axis 0 is the mapped axis.

  Called without a state, a layer takes \<open>tree_state(self)\<close>. The state rule is
  registered for BatchNorm only, and EvalNorm is not a subclass of it: for an EvalNorm
  the default rule gives \<open>NoState\<close> placeholders, which are no \<open>BatchNormState\<close>.
  The direct call returns them as they are (\<open>None\<close> below), and the rule that runs
  under \<open>jax.vmap\<close> fails when it reads \<open>state.running_mean\<close>.
\<close>

definition BatchNorm_call ::
  "BatchNorm \<Rightarrow> real ndarray \<Rightarrow> BatchNormState option \<Rightarrow> real ndarray \<times> BatchNormState" where
  "BatchNorm_call self x state =
     (let state = (case state of None \<Rightarrow> tree_state_BatchNorm (bn_in_features self) | Some s \<Rightarrow> s)
      in (x, state))"

definition EvalNorm_call ::
  "EvalNorm \<Rightarrow> real ndarray \<Rightarrow> BatchNormState option
     \<Rightarrow> real ndarray \<times> BatchNormState option" where
  "EvalNorm_call self x state = (x, state)"

definition BatchNorm_call_vmap ::
  "(string \<Rightarrow> real ndarray \<Rightarrow> real ndarray) \<Rightarrow> BatchNorm \<Rightarrow> real ndarray \<Rightarrow> BatchNormState option
     \<Rightarrow> error + real ndarray \<times> BatchNormState" where
  "BatchNorm_call_vmap pmean self x state =
     (let state = (case state of None \<Rightarrow> tree_state_BatchNorm (bn_in_features self) | Some s \<Rightarrow> s)
      in batchnorm_impl pmean x state (bn_momentum self) (bn_eps self) (bn_weight self)
           (bn_bias self) False (bn_axis self) (bn_axis_name self))"

definition EvalNorm_call_vmap ::
  "(string \<Rightarrow> real ndarray \<Rightarrow> real ndarray) \<Rightarrow> EvalNorm \<Rightarrow> real ndarray \<Rightarrow> BatchNormState option
     \<Rightarrow> error + real ndarray \<times> BatchNormState" where
  "EvalNorm_call_vmap pmean self x state =
     (case state of
        None \<Rightarrow> bind_err (py_index (ndim x) (en_axis self)) (\<lambda>_. Inl AttributeError)
      | Some state \<Rightarrow> batchnorm_impl pmean x state 0 (en_eps self) (en_weight self)
                       (en_bias self) True (en_axis self) (en_axis_name self))"

section \<open>Evaluation mode (src/serket/nn/custom_transform.py)\<close>

text \<open>
  The leaves of a tree of layers. A leaf is an object of a class with a registered
  evaluation rule, or an object that holds none (another layer, an array).
\<close>

datatype layer =
    RandomCrop1D "nat list"
  | RandomCrop2D "nat list"
  | RandomCrop3D "nat list"
  | RandomZoom1D "real \<times> real"
  | RandomZoom2D "real \<times> real" "real \<times> real"
  | RandomZoom3D "real \<times> real" "real \<times> real" "real \<times> real"
  | BatchNormLayer BatchNorm
  | EvalNormLayer EvalNorm
  | Identity
  | GroupNormLayer GroupNorm
  | CenterCropLayer CenterCropND
  | Flatten int int
  | Unflatten int "nat list"
  | ArrayLeaf "real ndarray"

fun class_of :: "layer \<Rightarrow> string" where
  "class_of (RandomCrop1D _) = ''RandomCrop1D''"
| "class_of (RandomCrop2D _) = ''RandomCrop2D''"
| "class_of (RandomCrop3D _) = ''RandomCrop3D''"
| "class_of (RandomZoom1D _) = ''RandomZoom1D''"
| "class_of (RandomZoom2D _ _) = ''RandomZoom2D''"
| "class_of (RandomZoom3D _ _ _) = ''RandomZoom3D''"
| "class_of (BatchNormLayer _) = ''BatchNorm''"
| "class_of (EvalNormLayer _) = ''EvalNorm''"
| "class_of Identity = ''Identity''"
| "class_of (GroupNormLayer _) = ''GroupNorm''"
| "class_of (CenterCropLayer _) = ''CenterCropND''"
| "class_of (Flatten _ _) = ''Flatten''"
| "class_of (Unflatten _ _) = ''Unflatten''"
| "class_of (ArrayLeaf _) = ''Array''"

text \<open>The rules registered with \<open>tree_eval.def_eval\<close> in the sources.\<close>

fun eval_BatchNorm :: "layer \<Rightarrow> layer" where
  "eval_BatchNorm (BatchNormLayer batchnorm) =
     EvalNormLayer (EvalNorm_init (bn_in_features batchnorm) None (bn_momentum batchnorm)
       (bn_eps batchnorm) (InitCallable (\<lambda>_ _. bn_weight batchnorm))
       (InitCallable (\<lambda>_ _. bn_bias batchnorm)) (bn_axis batchnorm) (bn_axis_name batchnorm))"
| "eval_BatchNorm l = l"

definition eval_registry :: "(string \<times> (layer \<Rightarrow> layer)) list" where
  "eval_registry =
     [(''RandomCrop1D'', \<lambda>_. Identity), (''RandomCrop2D'', \<lambda>_. Identity),
      (''RandomCrop3D'', \<lambda>_. Identity), (''RandomZoom1D'', \<lambda>_. Identity),
      (''RandomZoom2D'', \<lambda>_. Identity), (''RandomZoom3D'', \<lambda>_. Identity),
      (''BatchNorm'', eval_BatchNorm)]"

text \<open>
  \<open>functools.singledispatch\<close> with the default \<open>lambda x: x\<close>: the rule registered
  for the class of the argument, or the default.
\<close>

definition eval_dispatcher :: "layer \<Rightarrow> layer" where
  "eval_dispatcher x = (case map_of eval_registry (class_of x) of None \<Rightarrow> x | Some rule \<Rightarrow> rule x)"

datatype 'a pytree = Leaf 'a | Node "'a pytree list"

fun tree_map :: "('a \<Rightarrow> 'b) \<Rightarrow> 'a pytree \<Rightarrow> 'b pytree" where
  "tree_map f (Leaf x) = Leaf (f x)"
| "tree_map f (Node ts) = Node (map (tree_map f) ts)"

definition tree_eval :: "layer pytree \<Rightarrow> layer pytree" where
  "tree_eval tree = tree_map eval_dispatcher tree"

section \<open>Multilinear (src/serket/nn/linear.py)\<close>

text \<open>
  The einsum string of a multilinear layer of the given degree. The cache around the
  function does not change what it returns.
\<close>

definition alpha :: string where
  "alpha = ''abcdefghijklmnopqrstuvwxyzABCDEFGHIJKLMNOPQRSTUVWXYZ''"

fun join :: "string \<Rightarrow> string list \<Rightarrow> string" where
  "join sep [] = []"
| "join sep [t] = t"
| "join sep (t # ts) = t @ sep @ join sep ts"

definition multilinear_einsum_string :: "int \<Rightarrow> error + string" where
  "multilinear_einsum_string degree =
     (if \<not> (1 \<le> degree \<and> degree \<le> int (length alpha) - 1) then Inl ValueError
      else let xs_string = map (\<lambda>i. ''...'' @ [i]) (take (nat degree) alpha);
               output_string = join '','' xs_string
           in Inr (output_string @ '','' @ take (nat (degree + 1)) alpha @ ''->...''
                   @ [alpha ! nat degree]))"

text \<open>
  \<open>einsum\<close> is \<open>jnp.einsum\<close> for the subscripts that the layers generate: an explicit
  output after \<open>->\<close>, the operands separated by commas, and each operand an optional
  leading ellipsis followed by letters. The dimensions under an ellipsis are broadcast
  against each other and lead the result; a letter has one extent in all its occurrences;
  the element of the result at an index is the sum, over all values of the letters that
  are missing from the output, of the product of the operands' elements.
\<close>

type_synonym subscript = "bool \<times> string"

fun split_on :: "char \<Rightarrow> string \<Rightarrow> string list" where
  "split_on c [] = [[]]"
| "split_on c (x # xs) =
     (if x = c then [] # split_on c xs
      else (case split_on c xs of [] \<Rightarrow> [[x]] | w # ws \<Rightarrow> (x # w) # ws))"

fun split_arrow :: "string \<Rightarrow> (string \<times> string) option" where
  "split_arrow (x # y # s) =
     (if x = CHR ''-'' \<and> y = CHR ''>'' then Some ([], s)
      else map_option (\<lambda>(l, r). (x # l, r)) (split_arrow (y # s)))"
| "split_arrow _ = None"

definition parse_subscript :: "string \<Rightarrow> error + subscript" where
  "parse_subscript s =
     (let e = (take 3 s = ''...''); ls = (if e then drop 3 s else s)
      in if list_all (\<lambda>c. c \<in> set alpha) ls then Inr (e, ls) else Inl ValueError)"

fun sequence_err :: "(error + 'a) list \<Rightarrow> error + 'a list" where
  "sequence_err [] = Inr []"
| "sequence_err (m # ms) = bind_err m (\<lambda>v. bind_err (sequence_err ms) (\<lambda>vs. Inr (v # vs)))"

definition parse_einsum :: "string \<Rightarrow> error + subscript list \<times> subscript" where
  "parse_einsum s =
     (case split_arrow s of
        None \<Rightarrow> Inl ValueError
      | Some (l, r) \<Rightarrow>
          bind_err (sequence_err (map parse_subscript (split_on CHR '','' l))) (\<lambda>ins.
          bind_err (parse_subscript r) (\<lambda>out. Inr (ins, out))))"

definition label_dims :: "subscript \<Rightarrow> nat list \<Rightarrow> (char \<times> nat) list" where
  "label_dims sub sh = zip (snd sub) (drop (length sh - length (snd sub)) sh)"

definition batch_shape :: "subscript \<Rightarrow> nat list \<Rightarrow> nat list" where
  "batch_shape sub sh = take (length sh - length (snd sub)) sh"

fun broadcast_all :: "nat list list \<Rightarrow> nat list option" where
  "broadcast_all [] = Some []"
| "broadcast_all (s # ss) =
     (case broadcast_all ss of None \<Rightarrow> None | Some t \<Rightarrow> broadcast_shapes s t)"

definition consistent :: "(char \<times> nat) list \<Rightarrow> bool" where
  "consistent dims = list_all (\<lambda>(c, n). list_all (\<lambda>(c', n'). c' \<noteq> c \<or> n' = n) dims) dims"

definition lookup :: "(char \<times> nat) list \<Rightarrow> char \<Rightarrow> nat" where
  "lookup env c = (case map_of env c of None \<Rightarrow> 0 | Some v \<Rightarrow> v)"

definition einsum :: "string \<Rightarrow> real ndarray list \<Rightarrow> error + real ndarray" where
  "einsum subscripts operands =
     bind_err (parse_einsum subscripts) (\<lambda>(ins, out).
       if length ins \<noteq> length operands then Inl ValueError
       else if \<not> list_all2 (\<lambda>sub a. if fst sub then length (snd sub) \<le> ndim a
                                       else length (snd sub) = ndim a) ins operands
         then Inl ValueError
       else
         let dims = concat (map2 (\<lambda>sub a. label_dims sub (shape a)) ins operands)
         in if \<not> consistent dims then Inl ValueError
            else if \<not> distinct (snd out) \<or> \<not> list_all (\<lambda>c. c \<in> fst ` set dims) (snd out)
              then Inl ValueError
            else
              (case broadcast_all (map2 (\<lambda>sub a. batch_shape sub (shape a)) ins operands) of
                 None \<Rightarrow> Inl ValueError
               | Some bsh \<Rightarrow>
                   if bsh \<noteq> [] \<and> \<not> fst out then Inl ValueError
                   else
                     let summed = filter (\<lambda>c. c \<notin> set (snd out)) (remdups (map fst dims));
                         out_shape = bsh @ map (lookup dims) (snd out)
                     in Inr (tabulate out_shape (\<lambda>idx.
                          let b = take (length bsh) idx; oidx = drop (length bsh) idx
                          in sum_list (map (\<lambda>s.
                               let env = zip (snd out) oidx @ zip summed s
                               in prod_list (map2 (\<lambda>sub a.
                                    item a (bcast_index (batch_shape sub (shape a)) b
                                            @ map (lookup env) (snd sub))) ins operands))
                               (indices (map (lookup dims) summed)))))))"

record Multilinear =
  ml_weight :: "real ndarray"
  ml_bias :: "real ndarray option"
  ml_in_features :: "nat list"
  ml_out_features :: nat

definition Multilinear_call :: "Multilinear \<Rightarrow> real ndarray list \<Rightarrow> error + real ndarray" where
  "Multilinear_call self x =
     bind_err (multilinear_einsum_string (int (length (ml_in_features self)))) (\<lambda>einsum_string.
     bind_err (einsum einsum_string (x @ [ml_weight self])) (\<lambda>y.
       case ml_bias self of None \<Rightarrow> Inr y | Some b \<Rightarrow> binop (+) y b))"

section \<open>Notions used to state the claims\<close>

text \<open>The leaves of a tree from left to right, and its structure without the leaves.\<close>

fun leaves :: "'a pytree \<Rightarrow> 'a list" where
  "leaves (Leaf x) = [x]"
| "leaves (Node ts) = concat (map leaves ts)"

fun treedef :: "'a pytree \<Rightarrow> unit pytree" where
  "treedef (Leaf x) = Leaf ()"
| "treedef (Node ts) = Node (map treedef ts)"

definition random_classes :: "string list" where
  "random_classes = [''RandomCrop1D'', ''RandomCrop2D'', ''RandomCrop3D'',
                     ''RandomZoom1D'', ''RandomZoom2D'', ''RandomZoom3D'']"

text \<open>
  A valid initializer argument is \<open>None\<close> or a callable that returns an array of the
  shape it was asked for.
\<close>

definition valid_init :: "'a InitType \<Rightarrow> key \<Rightarrow> nat list \<Rightarrow> bool" where
  "valid_init init k sh =
     (case init of
        InitNone \<Rightarrow> True
      | InitCallable f \<Rightarrow> (case f (Some k) sh of None \<Rightarrow> False | Some w \<Rightarrow> shape w = sh))"

text \<open>
  The statistics of a batch as the claim words them: the elements of \<open>x\<close> whose index
  on axis \<open>ax\<close> is \<open>f\<close>, their mean, and the mean of their squares minus the square
  of their mean.
\<close>

definition feature_slice :: "real ndarray \<Rightarrow> nat \<Rightarrow> nat \<Rightarrow> real list" where
  "feature_slice x ax f = map (item x) (filter (\<lambda>j. j ! ax = f) (indices (shape x)))"

definition spec_batch_mean :: "real ndarray \<Rightarrow> nat \<Rightarrow> nat \<Rightarrow> real" where
  "spec_batch_mean x ax f = mean (feature_slice x ax f)"

definition spec_batch_var :: "real ndarray \<Rightarrow> nat \<Rightarrow> nat \<Rightarrow> real" where
  "spec_batch_var x ax f =
     mean (map (\<lambda>v. v * v) (feature_slice x ax f)) - (spec_batch_mean x ax f) ^ 2"

text \<open>
  A weight or bias that is present has shape \<open>(F,)\<close>; it scales or shifts the
  normalized value of feature \<open>f\<close> by its element \<open>f\<close>.
\<close>

definition param_ok :: "nat \<Rightarrow> real ndarray option \<Rightarrow> bool" where
  "param_ok F p = (case p of None \<Rightarrow> True | Some g \<Rightarrow> shape g = [F])"

definition opt_scale :: "real ndarray option \<Rightarrow> nat \<Rightarrow> real \<Rightarrow> real" where
  "opt_scale weight f v = (case weight of None \<Rightarrow> v | Some g \<Rightarrow> v * item g [f])"

definition opt_shift :: "real ndarray option \<Rightarrow> nat \<Rightarrow> real \<Rightarrow> real" where
  "opt_shift bias f v = (case bias of None \<Rightarrow> v | Some b \<Rightarrow> v + item b [f])"

text \<open>
  The shape with extent \<open>F\<close> on axis \<open>ax\<close> and 1 elsewhere, and the index that is
  \<open>f\<close> on axis \<open>ax\<close> and 0 elsewhere.
\<close>

definition unit_index :: "nat \<Rightarrow> nat \<Rightarrow> nat \<Rightarrow> nat list" where
  "unit_index n ax f = (replicate n 0)[ax := f]"

definition feature_shape :: "nat \<Rightarrow> nat \<Rightarrow> nat \<Rightarrow> nat list" where
  "feature_shape n ax F = (replicate n 1)[ax := F]"

section \<open>Lemmas on arrays and primitives\<close>

lemma valid_index_length: "valid_index sh idx \<Longrightarrow> length idx = length sh"
  by (induction sh idx rule: valid_index.induct) auto

lemma valid_index_nth: "valid_index sh idx \<Longrightarrow> k < length sh \<Longrightarrow> idx ! k < sh ! k"
  by (induction sh idx arbitrary: k rule: valid_index.induct) (auto simp: nth_Cons split: nat.splits)

lemma valid_index_iff:
  "valid_index sh idx \<longleftrightarrow> length idx = length sh \<and> (\<forall>k < length sh. idx ! k < sh ! k)"
proof (induction sh idx rule: valid_index.induct)
  case (2 n sh i idx)
  show ?case
  proof
    assume "valid_index (n # sh) (i # idx)"
    then show "length (i # idx) = length (n # sh) \<and> (\<forall>k<length (n # sh). (i # idx) ! k < (n # sh) ! k)"
      using valid_index_length valid_index_nth by blast
  next
    assume h: "length (i # idx) = length (n # sh) \<and> (\<forall>k<length (n # sh). (i # idx) ! k < (n # sh) ! k)"
    then have "i < n" by auto
    moreover from h have "\<forall>k<length sh. idx ! k < sh ! k" by fastforce
    ultimately show "valid_index (n # sh) (i # idx)" using h 2 by simp
  qed
qed auto

lemma length_concat_const:
  "(\<And>x. x \<in> set xs \<Longrightarrow> length (f x) = m) \<Longrightarrow> length (concat (map f xs)) = length xs * m"
  by (induction xs) auto

lemma length_indices: "length (indices sh) = prod_list sh"
  by (induction sh) (auto simp: length_concat_const)

lemma nth_concat_const:
  assumes "\<And>i. i < n \<Longrightarrow> length (f i) = m" and "i < n" and "j < m"
  shows "concat (map f [0..<n]) ! (i * m + j) = f i ! j"
  using assms
proof (induction n)
  case 0
  then show ?case by simp
next
  case (Suc n)
  have len: "length (concat (map f [0..<n])) = length [0..<n] * m"
    by (rule length_concat_const) (use Suc.prems(1) in auto)
  show ?case
  proof (cases "i < n")
    case True
    have "i * m + j < i * m + m" using Suc.prems(3) by simp
    also have "\<dots> = Suc i * m" by simp
    also have "\<dots> \<le> n * m" using True by (intro mult_le_mono1) simp
    finally have "i * m + j < n * m" .
    then show ?thesis using Suc True len by (simp add: nth_append)
  next
    case False
    then have "i = n" using Suc.prems(2) by simp
    then show ?thesis using len by (simp add: nth_append)
  qed
qed

lemma ravel_less: "valid_index sh idx \<Longrightarrow> ravel sh idx < prod_list sh"
proof (induction sh idx rule: valid_index.induct)
  case (2 n sh i idx)
  then have a: "i < n" and b: "ravel sh idx < prod_list sh" by auto
  have "i * prod_list sh + ravel sh idx < i * prod_list sh + prod_list sh" using b by simp
  also have "\<dots> = Suc i * prod_list sh" by simp
  also have "\<dots> \<le> n * prod_list sh" using a by (intro mult_le_mono1) simp
  finally show ?case by simp
qed auto

lemma indices_ravel: "valid_index sh idx \<Longrightarrow> indices sh ! ravel sh idx = idx"
proof (induction sh idx rule: valid_index.induct)
  case (2 n sh i idx)
  then have a: "i < n" and v: "valid_index sh idx" by auto
  have "concat (map (\<lambda>i. map ((#) i) (indices sh)) [0..<n]) ! (i * prod_list sh + ravel sh idx)
        = map ((#) i) (indices sh) ! ravel sh idx"
    by (rule nth_concat_const) (use a v ravel_less in \<open>auto simp: length_indices\<close>)
  then show ?case using 2 v ravel_less[OF v] by (simp add: length_indices)
qed auto

lemma item_tabulate: "valid_index sh idx \<Longrightarrow> item (tabulate sh f) idx = f idx"
  using ravel_less[of sh idx] by (simp add: item_def tabulate_def length_indices indices_ravel)

lemma shape_tabulate [simp]: "shape (tabulate sh f) = sh"
  by (simp add: tabulate_def)

lemma wf_tabulate [simp]: "wf_array (tabulate sh f)"
  by (simp add: tabulate_def wf_array_def length_indices)

lemma set_indices: "set (indices sh) = {idx. valid_index sh idx}"
proof (induction sh)
  case Nil
  show ?case by (auto elim: valid_index.elims)
next
  case (Cons n sh)
  show ?case
  proof (rule set_eqI)
    fix idx
    show "idx \<in> set (indices (n # sh)) \<longleftrightarrow> idx \<in> {idx. valid_index (n # sh) idx}"
      using Cons by (cases idx) auto
  qed
qed

lemma tabulate_cong:
  "(\<And>idx. valid_index sh idx \<Longrightarrow> f idx = g idx) \<Longrightarrow> tabulate sh f = tabulate sh g"
  by (simp add: tabulate_def set_indices)

lemma ravel_indices: "k < prod_list sh \<Longrightarrow> ravel sh (indices sh ! k) = k"
proof (induction sh arbitrary: k)
  case Nil
  then show ?case by simp
next
  case (Cons n sh)
  let ?m = "prod_list sh"
  from Cons.prems have m: "0 < ?m" by (cases "?m = 0") auto
  have kd: "k div ?m < n" using Cons.prems m by (simp add: less_mult_imp_div_less mult.commute)
  have km: "k mod ?m < ?m" using m by simp
  have "concat (map (\<lambda>i. map ((#) i) (indices sh)) [0..<n]) ! ((k div ?m) * ?m + k mod ?m)
        = map ((#) (k div ?m)) (indices sh) ! (k mod ?m)"
    by (rule nth_concat_const) (use kd km in \<open>auto simp: length_indices\<close>)
  then have "indices (n # sh) ! k = (k div ?m) # (indices sh ! (k mod ?m))"
    using km by (simp add: length_indices)
  then show ?case using Cons.IH[OF km] by simp
qed

lemma tabulate_item: "wf_array a \<Longrightarrow> tabulate (shape a) (item a) = a"
proof -
  assume w: "wf_array a"
  have "map (item a) (indices (shape a)) = data a"
  proof (rule nth_equalityI)
    show "length (map (item a) (indices (shape a))) = length (data a)"
      using w by (simp add: length_indices wf_array_def)
  next
    fix k assume "k < length (map (item a) (indices (shape a)))"
    then have "k < prod_list (shape a)" by (simp add: length_indices)
    then show "map (item a) (indices (shape a)) ! k = data a ! k"
      by (simp add: length_indices item_def ravel_indices)
  qed
  then show ?thesis by (cases a) (simp add: tabulate_def)
qed

lemma array_eqI:
  assumes "wf_array a" "wf_array b" "shape a = shape b"
    and "\<And>idx. valid_index (shape a) idx \<Longrightarrow> item a idx = item b idx"
  shows "a = b"
proof -
  have "tabulate (shape a) (item a) = tabulate (shape a) (item b)"
    by (rule tabulate_cong) (rule assms(4))
  then show ?thesis using assms(1-3) tabulate_item by metis
qed

lemma ravel_append:
  "length a = length sa \<Longrightarrow> ravel (sa @ sb) (a @ b) = ravel sa a * prod_list sb + ravel sb b"
  by (induction a sa rule: list_induct2) (auto simp: algebra_simps)

lemma split3: "s \<le> e \<Longrightarrow> take s xs @ drop s (take (Suc e) xs) @ drop (Suc e) xs = xs"
  by (metis append_take_drop_id drop_take take_add le_Suc_eq le_add_diff_inverse append.assoc
      less_eq_Suc_le not_less_eq_eq nat_le_linear le_imp_less_Suc)

lemma ravel_collapse:
  assumes "s \<le> e" "e < length sh" "length idx = length sh"
  shows "ravel (take s sh @ [prod_list (drop s (take (Suc e) sh))] @ drop (Suc e) sh)
           (collapse_index sh s e idx) = ravel sh idx"
proof -
  let ?m = "drop s (take (Suc e) sh)" and ?im = "drop s (take (Suc e) idx)"
  have l1: "length (take s idx) = length (take s sh)" using assms by simp
  have l2: "length ?im = length ?m" using assms by simp
  have "ravel sh idx = ravel (take s sh @ (?m @ drop (Suc e) sh)) (take s idx @ (?im @ drop (Suc e) idx))"
    using split3[OF assms(1)] by metis
  also have "\<dots> = ravel (take s sh) (take s idx) * prod_list (?m @ drop (Suc e) sh)
                   + (ravel ?m ?im * prod_list (drop (Suc e) sh) + ravel (drop (Suc e) sh) (drop (Suc e) idx))"
    using l1 l2 by (simp only: ravel_append)
  also have "\<dots> = ravel (take s sh @ [prod_list ?m] @ drop (Suc e) sh) (collapse_index sh s e idx)"
    unfolding collapse_index_def using l1 by (simp add: ravel_append)
  finally show ?thesis by simp
qed

lemma item_index_first:
  assumes "wf_array a" "shape a = n # sh" "c < n" "valid_index sh idx"
  shows "item (index_first a c) idx = item a (c # idx)"
proof -
  let ?m = "prod_list sh"
  have r: "ravel sh idx < ?m" using assms(4) by (rule ravel_less)
  have "Suc c * ?m \<le> n * ?m" using assms(3) by (intro mult_le_mono1) simp
  then have le: "c * ?m + ?m \<le> length (data a)"
    using assms(1,2) by (simp add: wf_array_def)
  show ?thesis
    using r le assms(2) by (simp add: item_def index_first_def Let_def)
qed

lemma shape_index_first [simp]: "shape (index_first a c) = tl (shape a)"
  by (simp add: index_first_def Let_def)

lemma vmap_Inr:
  assumes "shape a = n # sh" "f (NDArray sh []) = Inr p"
  shows "vmap f a = Inr (tabulate (n # shape p)
           (\<lambda>idx. item (projr (f (index_first a (hd idx)))) (tl idx)))"
  using assms by (simp add: vmap_def)

lemma clamp_center:
  assumes "z \<le> n"
  shows "nat (max 0 (min (max (int n div 2 - int z div 2) 0) (int n - int z))) = center_start n z"
proof -
  have "int n div 2 - int z div 2 \<le> int n - int z" using assms by linarith
  then show ?thesis using assms by (simp add: center_start_def max_def min_def)
qed

lemma center_starts:
  assumes "list_all2 (\<le>) sizes sh"
  shows "map (\<lambda>(st, (n, sz)). let st' = (if st < 0 then st + int n else st)
                       in nat (max 0 (min st' (int n - int sz))))
           (zip (map (\<lambda>(shp, size). max (int shp div 2 - int size div 2) 0) (zip sh sizes))
                (zip sh sizes))
         = map2 center_start sh sizes"
  using assms
proof (induction sizes sh rule: list_all2_induct)
  case Nil
  then show ?case by simp
next
  case (Cons z sizes n sh)
  have "\<not> max (int n div 2 - int z div 2) 0 < 0" by simp
  then show ?case using Cons clamp_center[of z n] by (simp add: Let_def)
qed

lemma center_crop_nd_Inr:
  assumes "shape a = sh" "list_all2 (\<le>) sizes sh"
  shows "center_crop_nd a sizes =
           Inr (tabulate sizes (\<lambda>idx. item a (map2 (+) (map2 center_start sh sizes) idx)))"
proof -
  have len: "length sizes = length sh" using assms(2) by (rule list_all2_lengthD)
  show ?thesis
    using assms len center_starts[OF assms(2)]
    by (simp add: center_crop_nd_def dynamic_slice_def ndim_def Let_def)
qed

lemma valid_index_add_start:
  assumes "list_all2 (\<le>) sizes sh" "valid_index sizes idx"
  shows "valid_index sh (map2 (+) (map2 center_start sh sizes) idx)"
  using assms
proof (induction sizes sh arbitrary: idx rule: list_all2_induct)
  case Nil
  then show ?case by (cases idx) auto
next
  case (Cons z sizes n sh)
  then obtain i r where idx: "idx = i # r" by (cases idx) auto
  then have i: "i < z" and r: "valid_index sizes r" using Cons.prems by auto
  have "int (center_start n z) = max (int n div 2 - int z div 2) 0"
    by (simp add: center_start_def)
  then have "int (center_start n z) + int i < int n" using Cons.hyps(1) i by linarith
  then have "center_start n z + i < n" by linarith
  then show ?case using Cons.IH[OF r] idx by simp
qed

lemma unpad_valid:
  assumes "length idx = length sh" "length sh = length pw" "in_interior sh pw idx"
  shows "valid_index sh (unpad_index pw idx)"
  using assms
proof (induction idx sh pw rule: list_induct3)
  case Nil
  then show ?case by (simp add: unpad_index_def)
next
  case (Cons i idx n sh p pw)
  obtain lo hi where p: "p = (lo, hi)" by (cases p)
  from Cons.prems have "lo \<le> i" "i < lo + n" "in_interior sh pw idx"
    by (auto simp: in_interior_def p)
  then show ?case using Cons.IH by (simp add: unpad_index_def p)
qed

lemma jnp_pad_Inr:
  assumes "pw \<noteq> []" "length pw = length (shape a)"
  shows "jnp_pad a pw v = Inr (tabulate (pad_shape (shape a) pw)
                 (\<lambda>idx. if in_interior (shape a) pw idx
                         then item a (unpad_index pw idx) else v))"
  using assms by (simp add: jnp_pad_def broadcast_to_pairs_def ndim_def)

lemma length_pad_shape: "length pw = length sh \<Longrightarrow> length (pad_shape sh pw) = length sh"
  by (simp add: pad_shape_def)

subsection \<open>Broadcasting\<close>

lemma bind_err_Inr [simp]: "bind_err (Inr v) f = f v"
  by (simp add: bind_err_def)

lemma bind_err_Inl [simp]: "bind_err (Inl e) f = Inl e"
  by (simp add: bind_err_def)

lemma bcast_index_valid: "valid_index sh idx \<Longrightarrow> bcast_index sh idx = idx"
proof (induction sh idx rule: valid_index.induct)
  case (2 n sh i idx)
  then have "length idx = length sh" by (auto dest: valid_index_length)
  then show ?case using 2 by (auto simp: bcast_index_def)
qed (auto simp: bcast_index_def)

lemma broadcast_shapes_same_rank:
  assumes "list_all2 (\<lambda>a b. b = a \<or> b = 1) s t"
  shows "broadcast_shapes s t = Some s"
proof -
  have len: "length s = length t" using assms by (rule list_all2_lengthD)
  have a: "list_all2 (\<lambda>a b. a = b \<or> a = 1 \<or> b = 1) s t"
    using assms by (rule list_all2_mono) auto
  have b: "map2 (\<lambda>a b. if a = 1 then b else a) s t = s"
    using assms by (induction rule: list_all2_induct) auto
  show ?thesis using len a b by (simp add: broadcast_shapes_def)
qed

lemma broadcast_shapes_refl: "broadcast_shapes s s = Some s"
  by (rule broadcast_shapes_same_rank) (simp add: list_all2_same)

lemma binop_Inr:
  "broadcast_shapes (shape a) (shape b) = Some sh \<Longrightarrow>
   binop f a b = Inr (tabulate sh (\<lambda>idx. f (item a (bcast_index (shape a) idx))
                                          (item b (bcast_index (shape b) idx))))"
  by (simp add: binop_def)

lemma item_map_array:
  "ravel (shape a) idx < length (data a) \<Longrightarrow> item (map_array f a) idx = f (item a idx)"
  by (simp add: item_def map_array_def)

lemma item_map_array_wf:
  "wf_array a \<Longrightarrow> valid_index (shape a) idx \<Longrightarrow> item (map_array f a) idx = f (item a idx)"
  using ravel_less[of "shape a" idx] by (simp add: item_map_array wf_array_def)

lemma shape_map_array [simp]: "shape (map_array f a) = shape a"
  by (simp add: map_array_def)

lemma wf_map_array [simp]: "wf_array (map_array f a) = wf_array a"
  by (simp add: map_array_def wf_array_def)

lemma prod_list_feature_shape: "ax < n \<Longrightarrow> prod_list (feature_shape n ax F) = F"
proof (induction n arbitrary: ax)
  case 0
  then show ?case by simp
next
  case (Suc n)
  then show ?case by (cases ax) (auto simp: feature_shape_def)
qed

lemma prod_list_replicate_one [simp]: "prod_list (replicate n (Suc 0)) = Suc 0"
  by (induction n) auto

lemma ravel_replicate_zero [simp]: "ravel sh (replicate n 0) = 0"
proof (induction sh arbitrary: n)
  case Nil
  then show ?case by simp
next
  case (Cons m sh)
  then show ?case by (cases n) auto
qed

lemma ravel_unit_index: "ax < n \<Longrightarrow> ravel (feature_shape n ax F) (unit_index n ax f) = f"
proof (induction n arbitrary: ax)
  case 0
  then show ?case by simp
next
  case (Suc n)
  show ?case
  proof (cases ax)
    case 0
    then show ?thesis by (simp add: feature_shape_def unit_index_def)
  next
    case (Suc k)
    then have "k < n" using Suc.prems by simp
    from Suc.IH[OF this] show ?thesis using Suc
      by (simp add: feature_shape_def unit_index_def)
  qed
qed

lemma valid_unit_index:
  "ax < n \<Longrightarrow> f < F \<Longrightarrow> valid_index (feature_shape n ax F) (unit_index n ax f)"
  by (auto simp: valid_index_iff feature_shape_def unit_index_def nth_list_update)

lemma unit_index_nth [simp]: "ax < n \<Longrightarrow> unit_index n ax f ! ax = f"
  by (simp add: unit_index_def)

lemma bcast_feature_index:
  assumes "valid_index sh idx" "ax < length sh"
  shows "bcast_index (feature_shape (length sh) ax (sh ! ax)) idx
         = unit_index (length sh) ax (idx ! ax)"
proof -
  have len: "length idx = length sh" using assms(1) by (rule valid_index_length)
  have lt: "idx ! ax < sh ! ax" using assms by (rule valid_index_nth)
  show ?thesis
  proof (rule nth_equalityI)
    show "length (bcast_index (feature_shape (length sh) ax (sh ! ax)) idx)
          = length (unit_index (length sh) ax (idx ! ax))"
      using len by (simp add: bcast_index_def feature_shape_def unit_index_def)
  next
    fix k assume "k < length (bcast_index (feature_shape (length sh) ax (sh ! ax)) idx)"
    then have k: "k < length sh" using len by (simp add: bcast_index_def feature_shape_def)
    show "bcast_index (feature_shape (length sh) ax (sh ! ax)) idx ! k
          = unit_index (length sh) ax (idx ! ax) ! k"
      using k len lt assms(2)
      by (auto simp: bcast_index_def feature_shape_def unit_index_def nth_list_update)
  qed
qed

lemma broadcast_shapes_feature:
  assumes "ax < length sh"
  shows "broadcast_shapes sh (feature_shape (length sh) ax (sh ! ax)) = Some sh"
proof (rule broadcast_shapes_same_rank)
  show "list_all2 (\<lambda>a b. b = a \<or> b = 1) sh (feature_shape (length sh) ax (sh ! ax))"
    using assms by (auto simp: list_all2_conv_all_nth feature_shape_def nth_list_update)
qed

lemma binop_same:
  assumes "shape a = sh" "shape b = sh"
  shows "binop f a b = Inr (tabulate sh (\<lambda>idx. f (item a idx) (item b idx)))"
proof -
  have bs: "broadcast_shapes (shape a) (shape b) = Some sh"
    using assms by (simp add: broadcast_shapes_refl)
  have "tabulate sh (\<lambda>idx. f (item a (bcast_index (shape a) idx)) (item b (bcast_index (shape b) idx)))
        = tabulate sh (\<lambda>idx. f (item a idx) (item b idx))"
    by (rule tabulate_cong) (simp add: assms bcast_index_valid)
  then show ?thesis using binop_Inr[OF bs, of f] by simp
qed

lemma binop_feature:
  assumes "shape a = sh" "ax < length sh" "shape b = feature_shape (length sh) ax (sh ! ax)"
  shows "binop f a b
         = Inr (tabulate sh (\<lambda>idx. f (item a idx) (item b (unit_index (length sh) ax (idx ! ax)))))"
proof -
  have bs: "broadcast_shapes (shape a) (shape b) = Some sh"
    using assms by (simp add: broadcast_shapes_feature)
  have "tabulate sh (\<lambda>idx. f (item a (bcast_index (shape a) idx)) (item b (bcast_index (shape b) idx)))
        = tabulate sh (\<lambda>idx. f (item a idx) (item b (unit_index (length sh) ax (idx ! ax))))"
    by (rule tabulate_cong) (simp add: assms bcast_index_valid bcast_feature_index)
  then show ?thesis using binop_Inr[OF bs, of f] by simp
qed

subsection \<open>Batch statistics\<close>

lemma other_axes: "ax < n \<Longrightarrow> take ax [0..<n] @ drop (Suc ax) [0..<n] = [0..<ax] @ [Suc ax..<n]"
  by (simp add: take_upt drop_upt)

lemma reduced_shape:
  assumes "ax < length sh"
  shows "map (\<lambda>k. if k \<in> set ([0..<ax] @ [Suc ax..<length sh]) then 1 else sh ! k) [0..<length sh]
         = feature_shape (length sh) ax (sh ! ax)"
  using assms by (intro nth_equalityI) (auto simp: feature_shape_def nth_list_update)

lemma group_predicate:
  assumes "ax < n"
  shows "list_all (\<lambda>k. k \<in> set ([0..<ax] @ [Suc ax..<n]) \<or> j ! k = idx ! k) [0..<n]
         \<longleftrightarrow> j ! ax = idx ! ax"
proof
  assume "list_all (\<lambda>k. k \<in> set ([0..<ax] @ [Suc ax..<n]) \<or> j ! k = idx ! k) [0..<n]"
  then have "\<forall>k\<in>set [0..<n]. k \<in> set ([0..<ax] @ [Suc ax..<n]) \<or> j ! k = idx ! k"
    by (simp only: list_all_iff)
  moreover have "ax \<in> set [0..<n]" using assms by simp
  ultimately have "ax \<in> set ([0..<ax] @ [Suc ax..<n]) \<or> j ! ax = idx ! ax" by (rule bspec)
  then show "j ! ax = idx ! ax" by simp
next
  assume eq: "j ! ax = idx ! ax"
  show "list_all (\<lambda>k. k \<in> set ([0..<ax] @ [Suc ax..<n]) \<or> j ! k = idx ! k) [0..<n]"
    unfolding list_all_iff
  proof
    fix k assume "k \<in> set [0..<n]"
    then have k: "k < n" by simp
    show "k \<in> set ([0..<ax] @ [Suc ax..<n]) \<or> j ! k = idx ! k"
    proof (cases "k = ax")
      case True
      then show ?thesis using eq by simp
    next
      case False
      then have "k < ax \<or> Suc ax \<le> k" by arith
      then show ?thesis using k by auto
    qed
  qed
qed

lemma jnp_mean_keepdims_feature:
  assumes "ax < ndim x"
  shows "jnp_mean_keepdims x (take ax [0..<ndim x] @ drop (Suc ax) [0..<ndim x])
         = tabulate (feature_shape (ndim x) ax (shape x ! ax))
             (\<lambda>idx. spec_batch_mean x ax (idx ! ax))"
  using assms
  by (simp add: jnp_mean_keepdims_def other_axes ndim_def reduced_shape group_predicate
      spec_batch_mean_def feature_slice_def del: set_append set_upt)

lemma feature_slice_map_array:
  assumes "wf_array x"
  shows "feature_slice (map_array g x) ax f = map g (feature_slice x ax f)"
proof -
  have "map (item (map_array g x)) (filter (\<lambda>j. j ! ax = f) (indices (shape x)))
        = map (\<lambda>j. g (item x j)) (filter (\<lambda>j. j ! ax = f) (indices (shape x)))"
    by (rule map_cong) (use assms in \<open>auto simp: set_indices item_map_array_wf\<close>)
  then show ?thesis by (simp add: feature_slice_def comp_def)
qed

lemma squeeze_feature_shape:
  "ax < n \<Longrightarrow> filter (\<lambda>m. m \<noteq> Suc 0) (feature_shape n ax F) = (if F = Suc 0 then [] else [F])"
proof (induction n arbitrary: ax)
  case 0
  then show ?case by simp
next
  case (Suc n)
  have rep: "filter (\<lambda>m. m \<noteq> Suc 0) (replicate n (Suc 0)) = []" by (induction n) auto
  show ?case
  proof (cases ax)
    case 0
    then show ?thesis using rep by (simp add: feature_shape_def)
  next
    case (Suc k)
    then have "k < n" using Suc.prems by simp
    from Suc.IH[OF this] show ?thesis using Suc by (simp add: feature_shape_def)
  qed
qed

lemma item_squeezed_feature:
  assumes "shape a = feature_shape n ax F" "wf_array a" "ax < n" "f < F"
  shows "item (map_array g (squeeze a)) (bcast_index (shape (squeeze a)) [f])
         = g (item a (unit_index n ax f))"
proof -
  have len: "length (data a) = F"
    using assms(1,2,3) by (simp add: wf_array_def prod_list_feature_shape)
  have sq: "shape (squeeze a) = (if F = 1 then [] else [F])"
    using assms(1,3) by (simp add: squeeze_def squeeze_feature_shape)
  have r: "ravel (shape (squeeze a)) (bcast_index (shape (squeeze a)) [f]) = f"
    using assms(4) by (auto simp: sq bcast_index_def)
  have "item (map_array g (squeeze a)) (bcast_index (shape (squeeze a)) [f]) = g (data a ! f)"
    using r len assms(4) by (simp add: item_def map_array_def squeeze_def)
  also have "data a ! f = item a (unit_index n ax f)"
    using assms(1,3) by (simp add: item_def ravel_unit_index)
  finally show ?thesis .
qed

lemma broadcast_shapes_squeezed:
  "broadcast_shapes [F] (if F = 1 then [] else [F]) = Some [F]"
  by (cases "F = 1") (simp_all add: broadcast_shapes_def Let_def)

lemma stat_update:
  assumes a: "shape a = feature_shape n ax F" "wf_array a" "ax < n"
    and r: "shape r = [F]" "wf_array r"
  shows "binop (+) (map_array (\<lambda>v. m * v) r) (map_array (\<lambda>v. (1 - m) * v) (squeeze a))
         = Inr (tabulate [F] (\<lambda>idx. m * item r idx + (1 - m) * item a (unit_index n ax (hd idx))))"
proof -
  have sq: "shape (squeeze a) = (if F = 1 then [] else [F])"
    using a(1,3) by (simp add: squeeze_def squeeze_feature_shape)
  have bs: "broadcast_shapes (shape (map_array (\<lambda>v. m * v) r))
              (shape (map_array (\<lambda>v. (1 - m) * v) (squeeze a))) = Some [F]"
    using broadcast_shapes_squeezed[of F] by (simp add: r(1) sq)
  have "tabulate [F] (\<lambda>idx. item (map_array (\<lambda>v. m * v) r)
                               (bcast_index (shape (map_array (\<lambda>v. m * v) r)) idx)
                           + item (map_array (\<lambda>v. (1 - m) * v) (squeeze a))
                               (bcast_index (shape (map_array (\<lambda>v. (1 - m) * v) (squeeze a))) idx))
        = tabulate [F] (\<lambda>idx. m * item r idx + (1 - m) * item a (unit_index n ax (hd idx)))"
  proof (rule tabulate_cong)
    fix idx assume v: "valid_index [F] idx"
    then obtain f where idx: "idx = [f]" and f: "f < F"
      by (cases idx; cases "tl idx") auto
    have v': "valid_index (shape r) idx" using v r(1) by simp
    have 1: "item (map_array (\<lambda>v. m * v) r) (bcast_index (shape (map_array (\<lambda>v. m * v) r)) idx)
             = m * item r idx"
      using v' r(2) by (simp add: bcast_index_valid item_map_array_wf)
    have 2: "item (map_array (\<lambda>v. (1 - m) * v) (squeeze a))
               (bcast_index (shape (map_array (\<lambda>v. (1 - m) * v) (squeeze a))) idx)
             = (1 - m) * item a (unit_index n ax (hd idx))"
      using item_squeezed_feature[OF a f, of "\<lambda>v. (1 - m) * v"] by (simp add: idx)
    show "item (map_array (\<lambda>v. m * v) r) (bcast_index (shape (map_array (\<lambda>v. m * v) r)) idx)
          + item (map_array (\<lambda>v. (1 - m) * v) (squeeze a))
              (bcast_index (shape (map_array (\<lambda>v. (1 - m) * v) (squeeze a))) idx)
          = m * item r idx + (1 - m) * item a (unit_index n ax (hd idx))"
      by (simp only: 1 2)
  qed
  then show ?thesis using binop_Inr[OF bs, of "(+)"] by simp
qed

lemma item_feature_tabulate:
  "ax < n \<Longrightarrow> f < F \<Longrightarrow>
   item (tabulate (feature_shape n ax F) (\<lambda>idx. g (idx ! ax))) (unit_index n ax f) = g f"
  by (simp add: item_tabulate valid_unit_index)

lemma item_map_feature_tabulate:
  "ax < n \<Longrightarrow> f < F \<Longrightarrow>
   item (map_array h (tabulate (feature_shape n ax F) (\<lambda>idx. g (idx ! ax)))) (unit_index n ax f)
   = h (g f)"
  by (simp add: item_map_array_wf valid_unit_index item_tabulate)

subsection \<open>The two steps of batch normalization\<close>

lemma train_step_result:
  assumes wfx: "wf_array x" and ax: "ax < ndim x"
    and rm: "shape rm = [shape x ! ax]" "wf_array rm"
    and rv: "shape rv = [shape x ! ax]" "wf_array rv"
    and pm: "\<And>name a. axis_name = Some name \<Longrightarrow> pmean name a = a"
  shows "train_step pmean ax m eps axis_name (x, \<lparr>running_mean = rm, running_var = rv\<rparr>)
         = Inr (tabulate (shape x)
                  (\<lambda>idx. (item x idx - spec_batch_mean x ax (idx ! ax))
                          / sqrt (spec_batch_var x ax (idx ! ax) + eps)),
                \<lparr>running_mean = tabulate [shape x ! ax]
                    (\<lambda>idx. m * item rm idx + (1 - m) * spec_batch_mean x ax (hd idx)),
                 running_var = tabulate [shape x ! ax]
                    (\<lambda>idx. m * item rv idx + (1 - m) * spec_batch_var x ax (hd idx))\<rparr>)"
proof -
  let ?n = "ndim x" and ?sh = "shape x" and ?F = "shape x ! ax"
  let ?fsh = "feature_shape ?n ax ?F"
  let ?axes = "take ax [0..<?n] @ drop (Suc ax) [0..<?n]"
  let ?BM = "spec_batch_mean x ax" and ?BV = "spec_batch_var x ax"
  let ?bm = "tabulate ?fsh (\<lambda>idx. ?BM (idx ! ax))"
  let ?bv = "tabulate ?fsh (\<lambda>idx. ?BV (idx ! ax))"
  have axl: "ax < length ?sh" using ax by (simp add: ndim_def)
  have nl: "?n = length ?sh" by (simp add: ndim_def)
  have pmc: "(case axis_name of None \<Rightarrow> b | Some name \<Rightarrow> pmean name b) = b" for b
    using pm by (cases axis_name) simp_all
  have mean1: "jnp_mean_keepdims x ?axes = ?bm"
    using ax by (rule jnp_mean_keepdims_feature)
  have mean2: "jnp_mean_keepdims (map_array (\<lambda>v. v * v) x) ?axes
               = tabulate ?fsh (\<lambda>idx. mean (map (\<lambda>v. v * v) (feature_slice x ax (idx ! ax))))"
    using jnp_mean_keepdims_feature[of ax "map_array (\<lambda>v. v * v) x"] ax wfx
    by (simp add: ndim_def spec_batch_mean_def feature_slice_map_array)
  have var: "binop (-) (jnp_mean_keepdims (map_array (\<lambda>v. v * v) x) ?axes)
                       (map_array (\<lambda>v. v ^ 2) ?bm) = Inr ?bv"
  proof -
    have "binop (-) (tabulate ?fsh (\<lambda>idx. mean (map (\<lambda>v. v * v) (feature_slice x ax (idx ! ax)))))
                    (map_array (\<lambda>v. v ^ 2) ?bm)
          = Inr (tabulate ?fsh (\<lambda>idx.
               item (tabulate ?fsh (\<lambda>idx. mean (map (\<lambda>v. v * v) (feature_slice x ax (idx ! ax))))) idx
               - item (map_array (\<lambda>v. v ^ 2) ?bm) idx))"
      by (rule binop_same) simp_all
    moreover have "tabulate ?fsh (\<lambda>idx.
               item (tabulate ?fsh (\<lambda>idx. mean (map (\<lambda>v. v * v) (feature_slice x ax (idx ! ax))))) idx
               - item (map_array (\<lambda>v. v ^ 2) ?bm) idx) = ?bv"
      by (rule tabulate_cong)
         (simp add: item_tabulate item_map_array_wf spec_batch_var_def)
    ultimately show ?thesis by (simp only: mean2)
  qed
  have centred: "binop (-) x ?bm = Inr (tabulate ?sh (\<lambda>idx. item x idx - ?BM (idx ! ax)))"
  proof -
    have "binop (-) x ?bm
          = Inr (tabulate ?sh (\<lambda>idx. item x idx - item ?bm (unit_index (length ?sh) ax (idx ! ax))))"
      by (rule binop_feature) (use axl nl in simp_all)
    moreover have "tabulate ?sh (\<lambda>idx. item x idx - item ?bm (unit_index (length ?sh) ax (idx ! ax)))
                   = tabulate ?sh (\<lambda>idx. item x idx - ?BM (idx ! ax))"
    proof (rule tabulate_cong)
      fix idx assume "valid_index ?sh idx"
      then have "idx ! ax < ?F" using axl by (rule valid_index_nth)
      then show "item x idx - item ?bm (unit_index (length ?sh) ax (idx ! ax))
                 = item x idx - ?BM (idx ! ax)"
        using item_feature_tabulate[of ax ?n "idx ! ax" ?F ?BM] ax nl by simp
    qed
    ultimately show ?thesis by simp
  qed
  let ?cen = "tabulate ?sh (\<lambda>idx. item x idx - ?BM (idx ! ax))"
  have out: "binop (/) ?cen (map_array (\<lambda>v. sqrt (v + eps)) ?bv)
             = Inr (tabulate ?sh (\<lambda>idx. (item x idx - ?BM (idx ! ax)) / sqrt (?BV (idx ! ax) + eps)))"
  proof -
    have "binop (/) ?cen (map_array (\<lambda>v. sqrt (v + eps)) ?bv)
          = Inr (tabulate ?sh (\<lambda>idx. item ?cen idx
                   / item (map_array (\<lambda>v. sqrt (v + eps)) ?bv) (unit_index (length ?sh) ax (idx ! ax))))"
      by (rule binop_feature) (use axl nl in simp_all)
    moreover have "tabulate ?sh (\<lambda>idx. item ?cen idx
                   / item (map_array (\<lambda>v. sqrt (v + eps)) ?bv) (unit_index (length ?sh) ax (idx ! ax)))
          = tabulate ?sh (\<lambda>idx. (item x idx - ?BM (idx ! ax)) / sqrt (?BV (idx ! ax) + eps))"
    proof (rule tabulate_cong)
      fix idx assume v: "valid_index ?sh idx"
      then have "idx ! ax < ?F" using axl by (rule valid_index_nth)
      then have "item (map_array (\<lambda>v. sqrt (v + eps)) ?bv) (unit_index (length ?sh) ax (idx ! ax))
                 = sqrt (?BV (idx ! ax) + eps)"
        using item_map_feature_tabulate[of ax ?n "idx ! ax" ?F "\<lambda>v. sqrt (v + eps)" ?BV] ax nl by simp
      then show "item ?cen idx
                   / item (map_array (\<lambda>v. sqrt (v + eps)) ?bv) (unit_index (length ?sh) ax (idx ! ax))
                 = (item x idx - ?BM (idx ! ax)) / sqrt (?BV (idx ! ax) + eps)"
        using v by (simp add: item_tabulate)
    qed
    ultimately show ?thesis by simp
  qed
  have upd: "binop (+) (map_array (\<lambda>v. m * v) r) (map_array (\<lambda>v. (1 - m) * v)
                (squeeze (tabulate ?fsh (\<lambda>idx. g (idx ! ax)))))
             = Inr (tabulate [?F] (\<lambda>idx. m * item r idx + (1 - m) * g (hd idx)))"
    if r: "shape r = [?F]" "wf_array r" for r g
  proof -
    let ?a = "tabulate ?fsh (\<lambda>idx. g (idx ! ax))"
    have "binop (+) (map_array (\<lambda>v. m * v) r) (map_array (\<lambda>v. (1 - m) * v) (squeeze ?a))
          = Inr (tabulate [?F] (\<lambda>idx. m * item r idx + (1 - m) * item ?a (unit_index ?n ax (hd idx))))"
      by (rule stat_update) (use ax r in simp_all)
    moreover have "tabulate [?F] (\<lambda>idx. m * item r idx + (1 - m) * item ?a (unit_index ?n ax (hd idx)))
                   = tabulate [?F] (\<lambda>idx. m * item r idx + (1 - m) * g (hd idx))"
    proof (rule tabulate_cong)
      fix idx assume "valid_index [?F] idx"
      then have "hd idx < ?F" by (cases idx) auto
      then show "m * item r idx + (1 - m) * item ?a (unit_index ?n ax (hd idx))
                 = m * item r idx + (1 - m) * g (hd idx)"
        using item_feature_tabulate[of ax ?n "hd idx" ?F g] ax by simp
    qed
    ultimately show ?thesis by simp
  qed
  show ?thesis
    by (simp only: train_step_def Let_def fst_conv snd_conv pmc
        BatchNormState.select_convs mean1 var bind_err_Inr centred out upd[OF rm] upd[OF rv])
qed

lemma eval_step_result:
  assumes ax: "ax < ndim x"
    and rm: "shape (running_mean state) = [shape x ! ax]"
    and rv: "shape (running_var state) = [shape x ! ax]"
  shows "\<exists>out. eval_step (feature_shape (ndim x) ax (shape x ! ax)) eps (x, state) = Inr (out, state)
           \<and> shape out = shape x"
proof -
  let ?n = "ndim x" and ?sh = "shape x" and ?F = "shape x ! ax"
  let ?fsh = "feature_shape ?n ax ?F"
  have axl: "ax < length ?sh" and nl: "?n = length ?sh" using ax by (simp_all add: ndim_def)
  have r1: "reshape (running_mean state) ?fsh = Inr (NDArray ?fsh (data (running_mean state)))"
    using ax rm by (simp add: reshape_def prod_list_feature_shape)
  have r2: "reshape (running_var state) ?fsh = Inr (NDArray ?fsh (data (running_var state)))"
    using ax rv by (simp add: reshape_def prod_list_feature_shape)
  let ?m = "NDArray ?fsh (data (running_mean state))"
  let ?v = "map_array (\<lambda>v. 1 / sqrt (v + eps)) (NDArray ?fsh (data (running_var state)))"
  let ?c = "tabulate ?sh (\<lambda>idx. item x idx - item ?m (unit_index (length ?sh) ax (idx ! ax)))"
  have c: "binop (-) x ?m = Inr ?c"
    by (rule binop_feature) (use axl nl in simp_all)
  have o: "binop (*) ?c ?v
           = Inr (tabulate ?sh (\<lambda>idx. item ?c idx * item ?v (unit_index (length ?sh) ax (idx ! ax))))"
    by (rule binop_feature) (use axl nl in simp_all)
  have "eval_step ?fsh eps (x, state)
        = Inr (tabulate ?sh (\<lambda>idx. item ?c idx * item ?v (unit_index (length ?sh) ax (idx ! ax))), state)"
    by (simp only: eval_step_def Let_def fst_conv snd_conv r1 r2 bind_err_Inr c o)
  then show ?thesis by simp
qed

lemma item_reshaped_param:
  assumes "shape g = [F]" "ax < n"
  shows "item (NDArray (feature_shape n ax F) (data g)) (unit_index n ax f) = item g [f]"
  using assms by (simp add: item_def ravel_unit_index)

lemma apply_param:
  assumes out: "shape out = sh" "wf_array out" and ax: "ax < length sh"
    and p: "param_ok (sh ! ax) p"
  shows "(case p of
            None \<Rightarrow> Inr out
          | Some g \<Rightarrow> bind_err (reshape g (feature_shape (length sh) ax (sh ! ax))) (binop f out))
         = Inr (tabulate sh (\<lambda>idx. case p of None \<Rightarrow> item out idx
                                     | Some g \<Rightarrow> f (item out idx) (item g [idx ! ax])))"
proof (cases p)
  case None
  then show ?thesis using out tabulate_item[of out] by simp
next
  case (Some g)
  let ?fsh = "feature_shape (length sh) ax (sh ! ax)"
  have g: "shape g = [sh ! ax]" using p Some by (simp add: param_ok_def)
  have r: "reshape g ?fsh = Inr (NDArray ?fsh (data g))"
    using ax g by (simp add: reshape_def prod_list_feature_shape)
  have "binop f out (NDArray ?fsh (data g))
        = Inr (tabulate sh (\<lambda>idx. f (item out idx)
                 (item (NDArray ?fsh (data g)) (unit_index (length sh) ax (idx ! ax)))))"
    by (rule binop_feature) (use out ax in simp_all)
  then show ?thesis
    using Some r by (simp add: item_reshaped_param[OF g ax])
qed

lemma py_index_less: "py_index n i = Inr ax \<Longrightarrow> ax < n"
  by (auto simp: py_index_def split: if_splits)

lemma state_eta: "\<lparr>running_mean = running_mean s, running_var = running_var s\<rparr> = (s :: BatchNormState)"
  by simp

lemma batchnorm_impl_train:
  assumes wfx: "wf_array x" and axis: "py_index (ndim x) axis = Inr ax"
    and rm: "shape (running_mean state) = [shape x ! ax]" "wf_array (running_mean state)"
    and rv: "shape (running_var state) = [shape x ! ax]" "wf_array (running_var state)"
    and gamma: "param_ok (shape x ! ax) gamma" and beta: "param_ok (shape x ! ax) beta"
    and pm: "\<And>name a. axis_name = Some name \<Longrightarrow> pmean name a = a"
  shows "batchnorm_impl pmean x state m eps gamma beta False axis axis_name
         = Inr (tabulate (shape x)
                  (\<lambda>idx. opt_shift beta (idx ! ax) (opt_scale gamma (idx ! ax)
                     ((item x idx - spec_batch_mean x ax (idx ! ax))
                        / sqrt (spec_batch_var x ax (idx ! ax) + eps)))),
                \<lparr>running_mean = tabulate [shape x ! ax]
                    (\<lambda>idx. m * item (running_mean state) idx + (1 - m) * spec_batch_mean x ax (hd idx)),
                 running_var = tabulate [shape x ! ax]
                    (\<lambda>idx. m * item (running_var state) idx + (1 - m) * spec_batch_var x ax (hd idx))\<rparr>)"
proof -
  let ?n = "ndim x" and ?sh = "shape x" and ?F = "shape x ! ax"
  let ?fsh = "feature_shape ?n ax ?F"
  let ?N = "\<lambda>idx. (item x idx - spec_batch_mean x ax (idx ! ax))
                   / sqrt (spec_batch_var x ax (idx ! ax) + eps)"
  let ?OUT = "tabulate ?sh ?N"
  let ?ST = "\<lparr>running_mean = tabulate [?F]
                (\<lambda>idx. m * item (running_mean state) idx + (1 - m) * spec_batch_mean x ax (hd idx)),
              running_var = tabulate [?F]
                (\<lambda>idx. m * item (running_var state) idx + (1 - m) * spec_batch_var x ax (hd idx))\<rparr>"
  have ax: "ax < ?n" using axis by (rule py_index_less)
  have axl: "ax < length ?sh" and nl: "length ?sh = ?n" using ax by (simp_all add: ndim_def)
  have bsh: "(replicate ?n 1)[ax := ?F] = ?fsh" by (simp add: feature_shape_def)
  obtain eout where ev: "eval_step ?fsh eps (x, state) = Inr (eout, state)" "shape eout = ?sh"
    using eval_step_result[OF ax rm(1) rv(1)] by blast
  have tr: "train_step pmean ax m eps axis_name (x, state) = Inr (?OUT, ?ST)"
    using train_step_result[OF wfx ax rm rv pm, where m=m and eps=eps] by (simp only: state_eta)
  have same: "same_avals (eout, state) (?OUT, ?ST)"
    using ev(2) rm(1) rv(1) by (simp add: same_avals_def)
  have cnd: "cond False (eval_step ?fsh eps) (train_step pmean ax m eps axis_name) (x, state)
             = Inr (?OUT, ?ST)"
    using same by (simp add: cond_def ev tr)
  let ?G = "\<lambda>idx. case gamma of None \<Rightarrow> item ?OUT idx | Some g \<Rightarrow> item ?OUT idx * item g [idx ! ax]"
  have g1: "(case gamma of None \<Rightarrow> Inr ?OUT
             | Some g \<Rightarrow> bind_err (reshape g ?fsh) (binop (*) ?OUT)) = Inr (tabulate ?sh ?G)"
    using apply_param[of ?OUT ?sh ax gamma "(*)", unfolded nl] ax gamma by simp
  let ?B = "\<lambda>idx. case beta of None \<Rightarrow> item (tabulate ?sh ?G) idx
                    | Some b \<Rightarrow> item (tabulate ?sh ?G) idx + item b [idx ! ax]"
  have b1: "(case beta of None \<Rightarrow> Inr (tabulate ?sh ?G)
             | Some b \<Rightarrow> bind_err (reshape b ?fsh) (binop (+) (tabulate ?sh ?G)))
            = Inr (tabulate ?sh ?B)"
    using apply_param[of "tabulate ?sh ?G" ?sh ax beta "(+)", unfolded nl] ax beta by simp
  have fin: "tabulate ?sh ?B
             = tabulate ?sh (\<lambda>idx. opt_shift beta (idx ! ax) (opt_scale gamma (idx ! ax) (?N idx)))"
    by (rule tabulate_cong)
       (simp add: item_tabulate opt_shift_def opt_scale_def split: option.splits)
  show ?thesis
    by (simp only: batchnorm_impl_def axis bind_err_Inr Let_def bsh cnd fst_conv snd_conv g1 b1 fin)
qed

lemma eval_step_state: "eval_step bs eps (x, st) = Inr (out, st') \<Longrightarrow> st' = st"
  by (auto simp: eval_step_def bind_err_def Let_def split: sum.splits)

lemma cond_True: "cond True f g operand = Inr r \<Longrightarrow> f operand = Inr r"
  by (auto simp: cond_def bind_err_def split: sum.splits if_splits)

lemma batchnorm_impl_eval_state:
  assumes "batchnorm_impl pmean x state m eps gamma beta True axis axis_name = Inr (out, st')"
  shows "st' = state"
proof -
  from assms obtain ax os where
    c: "cond True (eval_step ((replicate (ndim x) 1)[ax := shape x ! ax]) eps)
          (train_step pmean ax m eps axis_name) (x, state) = Inr os"
    and s: "st' = snd os"
    by (auto simp: batchnorm_impl_def bind_err_def Let_def split: sum.splits)
  from cond_True[OF c] have "eval_step ((replicate (ndim x) 1)[ax := shape x ! ax]) eps (x, state)
      = Inr (fst os, snd os)" by simp
  then have "snd os = state" by (rule eval_step_state)
  then show ?thesis using s by simp
qed

lemma batchnorm_impl_eval_returns:
  assumes wfx: "wf_array x" and axis: "py_index (ndim x) axis = Inr ax"
    and rm: "shape (running_mean state) = [shape x ! ax]" "wf_array (running_mean state)"
    and rv: "shape (running_var state) = [shape x ! ax]" "wf_array (running_var state)"
    and gamma: "param_ok (shape x ! ax) gamma" and beta: "param_ok (shape x ! ax) beta"
    and pm: "\<And>name a. axis_name = Some name \<Longrightarrow> pmean name a = a"
  shows "\<exists>out. batchnorm_impl pmean x state m eps gamma beta True axis axis_name
           = Inr (out, state)"
proof -
  let ?n = "ndim x" and ?sh = "shape x" and ?F = "shape x ! ax"
  let ?fsh = "feature_shape ?n ax ?F"
  have ax: "ax < ?n" using axis by (rule py_index_less)
  have axl: "ax < length ?sh" and nl: "length ?sh = ?n" using ax by (simp_all add: ndim_def)
  have bsh: "(replicate ?n 1)[ax := ?F] = ?fsh" by (simp add: feature_shape_def)
  obtain eout where ev: "eval_step ?fsh eps (x, state) = Inr (eout, state)" "shape eout = ?sh"
    using eval_step_result[OF ax rm(1) rv(1)] by blast
  obtain tout tst where tr: "train_step pmean ax m eps axis_name (x, state) = Inr (tout, tst)"
    and tsh: "shape tout = ?sh" "shape (running_mean tst) = [?F]" "shape (running_var tst) = [?F]"
    using train_step_result[OF wfx ax rm rv pm, where m=m and eps=eps] by (simp add: state_eta)
  have same: "same_avals (eout, state) (tout, tst)"
    using ev(2) tsh rm(1) rv(1) by (simp add: same_avals_def)
  have cnd: "cond True (eval_step ?fsh eps) (train_step pmean ax m eps axis_name) (x, state)
             = Inr (eout, state)"
    using same by (simp add: cond_def ev tr)
  have wfe: "wf_array eout"
    using ev(1) by (auto simp: eval_step_def bind_err_def binop_def Let_def split: sum.splits option.splits)
  obtain o1 where g1: "(case gamma of None \<Rightarrow> Inr eout
             | Some g \<Rightarrow> bind_err (reshape g ?fsh) (binop (*) eout)) = Inr o1"
    and o1: "shape o1 = ?sh" "wf_array o1"
    using apply_param[of eout ?sh ax gamma "(*)", unfolded nl] ev(2) wfe ax gamma by simp
  obtain o2 where b1: "(case beta of None \<Rightarrow> Inr o1
             | Some b \<Rightarrow> bind_err (reshape b ?fsh) (binop (+) o1)) = Inr o2"
    using apply_param[of o1 ?sh ax beta "(+)", unfolded nl] o1 ax beta by simp
  have "batchnorm_impl pmean x state m eps gamma beta True axis axis_name = Inr (o2, state)"
    by (simp only: batchnorm_impl_def axis bind_err_Inr Let_def bsh cnd fst_conv snd_conv g1 b1)
  then show ?thesis by blast
qed

subsection \<open>Trees of layers\<close>

lemma treedef_tree_map: "treedef (tree_map f t) = treedef t"
  by (induction t) simp_all

lemma leaves_tree_map: "leaves (tree_map f t) = map f (leaves t)"
  by (induction t) (simp_all add: map_concat cong: map_cong)

lemma eval_dispatcher_random:
  "class_of l \<in> set random_classes \<Longrightarrow> eval_dispatcher l = Identity"
  by (cases l) (simp_all add: eval_dispatcher_def eval_registry_def random_classes_def)

lemma eval_dispatcher_unregistered:
  "class_of l \<notin> fst ` set eval_registry \<Longrightarrow> eval_dispatcher l = l"
  by (cases l) (simp_all add: eval_dispatcher_def eval_registry_def)

lemma eval_dispatcher_BatchNorm:
  "eval_dispatcher (BatchNormLayer b) =
     EvalNormLayer (EvalNorm_init (bn_in_features b) None (bn_momentum b) (bn_eps b)
       (InitCallable (\<lambda>_ _. bn_weight b)) (InitCallable (\<lambda>_ _. bn_bias b))
       (bn_axis b) (bn_axis_name b))"
  by (simp add: eval_dispatcher_def eval_registry_def)

subsection \<open>The einsum string of a multilinear layer\<close>

lemma join_append_last: "ts \<noteq> [] \<Longrightarrow> join sep ts @ sep @ w = join sep (ts @ [w])"
  by (induction sep ts rule: join.induct) auto

lemma split_on_no_sep: "c \<notin> set t \<Longrightarrow> split_on c t = [t]"
  by (induction t) auto

lemma split_on_append: "c \<notin> set t \<Longrightarrow> split_on c (t @ c # rest) = t # split_on c rest"
  by (induction t) auto

lemma split_on_join:
  "ts \<noteq> [] \<Longrightarrow> (\<forall>t \<in> set ts. c \<notin> set t) \<Longrightarrow> split_on c (join [c] ts) = ts"
proof (induction "[c]" ts rule: join.induct)
  case 1
  then show ?case by simp
next
  case (2 t)
  then show ?case by (simp add: split_on_no_sep)
next
  case (3 t u us)
  then show ?case by (simp add: split_on_append)
qed

lemma split_arrow_append:
  "CHR ''-'' \<notin> set l \<Longrightarrow> split_arrow (l @ ''->'' @ r) = Some (l, r)"
proof (induction l)
  case Nil
  then show ?case by simp
next
  case (Cons x l)
  then obtain y s where ys: "l @ ''->'' @ r = y # s" by (cases "l @ ''->'' @ r") auto
  have "x \<noteq> CHR ''-''" using Cons.prems by auto
  then have "split_arrow (x # y # s) = map_option (\<lambda>(l, r). (x # l, r)) (split_arrow (y # s))"
    by simp
  then show ?case using Cons ys by simp
qed

lemma length_alpha: "length alpha = 52"
  by (simp add: alpha_def)

lemma distinct_alpha: "distinct alpha"
  by (simp add: alpha_def)

lemma alpha_no_punct:
  "CHR '','' \<notin> set alpha" "CHR ''-'' \<notin> set alpha" "CHR ''.'' \<notin> set alpha"
  by (simp_all add: alpha_def)

lemma parse_subscript_ellipsis:
  "c \<in> set alpha \<Longrightarrow> parse_subscript [CHR ''.'', CHR ''.'', CHR ''.'', c] = Inr (True, [c])"
  by (simp add: parse_subscript_def)

lemma parse_subscript_letters:
  assumes "ls \<noteq> []" "set ls \<subseteq> set alpha"
  shows "parse_subscript ls = Inr (False, ls)"
proof -
  obtain c cs where ls: "ls = c # cs" using assms(1) by (cases ls) auto
  then have "c \<noteq> CHR ''.''" using assms(2) alpha_no_punct(3) by auto
  then have "take 3 ls \<noteq> ''...''" using ls by (simp add: take_Cons')
  then show ?thesis using assms(2) by (auto simp: parse_subscript_def list_all_iff)
qed

lemma sequence_err_Inr: "sequence_err (map Inr vs) = Inr vs"
  by (induction vs) (simp_all add: bind_err_def)

lemma parse_multilinear:
  assumes "as \<noteq> []" "set as \<subseteq> set alpha" "z \<in> set alpha"
  shows "parse_einsum (join '','' (map (\<lambda>i. ''...'' @ [i]) as) @ '','' @ (as @ [z]) @ ''->...'' @ [z])
         = Inr (map (\<lambda>c. (True, [c])) as @ [(False, as @ [z])], (True, [z]))"
proof -
  let ?terms = "map (\<lambda>i. ''...'' @ [i]) as @ [as @ [z]]"
  let ?l = "join '','' ?terms"
  have l: "join '','' (map (\<lambda>i. ''...'' @ [i]) as) @ '','' @ (as @ [z]) = ?l"
    using assms(1) by (intro join_append_last) simp
  have nodash: "CHR ''-'' \<notin> set ?l"
  proof -
    have "CHR ''-'' \<notin> set (join '','' ts)" if "\<forall>t \<in> set ts. CHR ''-'' \<notin> set t" for ts
      using that by (induction "'',''" ts rule: join.induct) auto
    moreover have "\<forall>t \<in> set ?terms. CHR ''-'' \<notin> set t"
      using assms(2,3) alpha_no_punct(2) by auto
    ultimately show ?thesis by blast
  qed
  have arrow: "split_arrow (?l @ ''->'' @ (''...'' @ [z])) = Some (?l, ''...'' @ [z])"
    using nodash by (rule split_arrow_append)
  have nocomma: "\<forall>t \<in> set ?terms. CHR '','' \<notin> set t"
    using assms(2,3) alpha_no_punct(1) by auto
  have split: "split_on CHR '','' ?l = ?terms"
    using split_on_join[of ?terms "CHR '',''"] nocomma by simp
  have p1: "map parse_subscript ?terms
            = map Inr (map (\<lambda>c. (True, [c])) as @ [(False, as @ [z])])"
    using assms parse_subscript_letters[of "as @ [z]"]
    by (auto simp: parse_subscript_ellipsis)
  have p2: "parse_subscript (''...'' @ [z]) = Inr (True, [z])"
    using assms(3) by (simp add: parse_subscript_ellipsis)
  have main: "parse_einsum (?l @ ''->'' @ (''...'' @ [z]))
        = Inr (map (\<lambda>c. (True, [c])) as @ [(False, as @ [z])], (True, [z]))"
    by (simp only: parse_einsum_def arrow option.case prod.case split p1 sequence_err_Inr p2
        bind_err_Inr)
  have eq: "join '','' (map (\<lambda>i. ''...'' @ [i]) as) @ '','' @ (as @ [z]) @ ''->...'' @ [z]
            = ?l @ ''->'' @ (''...'' @ [z])"
    unfolding l[symmetric] by simp
  show ?thesis unfolding eq by (rule main)
qed

lemma multilinear_einsum_string_parse:
  assumes "1 \<le> d" "d \<le> 51"
  shows "\<exists>s. multilinear_einsum_string (int d) = Inr s
           \<and> parse_einsum s = Inr (map (\<lambda>c. (True, [c])) (take d alpha)
                                     @ [(False, take d alpha @ [alpha ! d])], (True, [alpha ! d]))"
proof -
  have d: "d < length alpha" using assms by (simp add: length_alpha)
  have t: "take (Suc d) alpha = take d alpha @ [alpha ! d]"
    using d by (rule take_Suc_conv_app_nth)
  have ne: "take d alpha \<noteq> []" using assms d by auto
  have sub: "set (take d alpha) \<subseteq> set alpha" by (rule set_take_subset)
  have z: "alpha ! d \<in> set alpha" using d by simp
  have "multilinear_einsum_string (int d)
        = Inr (join '','' (map (\<lambda>i. ''...'' @ [i]) (take d alpha)) @ '','' @ (take d alpha @ [alpha ! d])
               @ ''->...'' @ [alpha ! d])"
    using assms t by (simp add: multilinear_einsum_string_def length_alpha Let_def nat_add_distrib)
  then show ?thesis using parse_multilinear[OF ne sub z] by simp
qed

subsection \<open>The contraction that einsum computes\<close>

lemma map2_map_nth:
  "length as = length xs \<Longrightarrow>
   map2 G (map m as) xs = map (\<lambda>k. G (m (as ! k)) (xs ! k)) [0..<length xs]"
  by (intro nth_equalityI) auto

lemma map2_snoc:
  "length as = length xs \<Longrightarrow> map2 G (as @ [a]) (xs @ [x]) = map2 G as xs @ [G a x]"
  by simp

lemma zip_nth_upt: "length as = length bs \<Longrightarrow> zip as bs = map (\<lambda>k. (as ! k, bs ! k)) [0..<length as]"
  by (intro nth_equalityI) auto

lemma concat_singletons: "concat (map (\<lambda>k. [f k]) ks) = map f ks"
  by (induction ks) auto

lemma lookup_zip_nth:
  "distinct as \<Longrightarrow> length as = length vs \<Longrightarrow> k < length as \<Longrightarrow>
   lookup (zip as vs @ rest) (as ! k) = vs ! k"
  by (simp add: lookup_def map_add_def map_of_zip_nth)

lemma lookup_skip:
  "z \<notin> set as \<Longrightarrow> lookup (zip as vs @ rest) z = lookup rest z"
proof -
  assume "z \<notin> set as"
  then have "map_of (zip as vs) z = None"
    by (auto simp: map_of_eq_None_iff dest: set_zip_leftD)
  then show ?thesis by (simp add: lookup_def map_add_def)
qed

lemma multilinear_dims:
  assumes "length as = length xs" "length fs = length xs" "length batches = length xs"
    and "\<forall>k < length xs. shape (xs ! k) = batches ! k @ [fs ! k]"
    and "shape w = fs @ [out]"
  shows "concat (map2 (\<lambda>sub a. label_dims sub (shape a))
           (map (\<lambda>c. (True, [c])) as @ [(False, as @ [z])]) (xs @ [w]))
         = zip as fs @ zip as fs @ [(z, out)]"
proof -
  have 1: "map2 (\<lambda>sub a. label_dims sub (shape a)) (map (\<lambda>c. (True, [c])) as) xs
           = map (\<lambda>k. [(as ! k, fs ! k)]) [0..<length xs]"
    unfolding map2_map_nth[OF assms(1)]
    by (rule map_cong) (use assms in \<open>auto simp: label_dims_def\<close>)
  have 2: "label_dims (False, as @ [z]) (shape w) = zip as fs @ [(z, out)]"
    using assms by (simp add: label_dims_def)
  have 3: "zip as fs = map (\<lambda>k. (as ! k, fs ! k)) [0..<length xs]"
    using zip_nth_upt[of as fs] assms by simp
  show ?thesis
    using assms(1) by (simp add: 1 2 concat_singletons 3[symmetric])
qed

lemma multilinear_batches:
  assumes "length as = length xs" "length fs = length xs" "length batches = length xs"
    and "\<forall>k < length xs. shape (xs ! k) = batches ! k @ [fs ! k]"
    and "shape w = fs @ [out]"
  shows "map2 (\<lambda>sub a. batch_shape sub (shape a))
           (map (\<lambda>c. (True, [c])) as @ [(False, as @ [z])]) (xs @ [w])
         = batches @ [[]]"
proof -
  have "map2 (\<lambda>sub a. batch_shape sub (shape a)) (map (\<lambda>c. (True, [c])) as) xs
           = map (\<lambda>k. batches ! k) [0..<length xs]"
    unfolding map2_map_nth[OF assms(1)]
    by (rule map_cong) (use assms in \<open>auto simp: batch_shape_def\<close>)
  also have "\<dots> = batches" using assms(3) by (metis map_nth)
  finally have 1: "map2 (\<lambda>sub a. batch_shape sub (shape a)) (map (\<lambda>c. (True, [c])) as) xs = batches" .
  have 2: "batch_shape (False, as @ [z]) (shape w) = []"
    using assms by (simp add: batch_shape_def)
  show ?thesis using assms(1) by (simp add: 1 2)
qed

lemma broadcast_shapes_Nil: "broadcast_shapes [] [] = Some []"
  by (simp add: broadcast_shapes_def)

lemma broadcast_all_snoc_Nil: "broadcast_all (ss @ [[]]) = broadcast_all ss"
  by (induction ss) (simp_all add: broadcast_shapes_Nil)

lemma consistent_dims:
  assumes "distinct (as @ [z])" "length as = length fs"
  shows "consistent (zip as fs @ zip as fs @ [(z, out)])"
proof -
  let ?D = "zip as fs @ zip as fs @ [(z, out)]"
  let ?E = "zip as fs @ [(z, out)]"
  have dist: "distinct (map fst ?E)" using assms by simp
  have set: "set ?D = set ?E" by auto
  have "\<forall>p \<in> set ?D. \<forall>q \<in> set ?D. fst q \<noteq> fst p \<or> snd q = snd p"
  proof (intro ballI)
    fix p q assume "p \<in> set ?D" "q \<in> set ?D"
    then have p: "(fst p, snd p) \<in> set ?E" and q: "(fst q, snd q) \<in> set ?E"
      unfolding set by simp_all
    show "fst q \<noteq> fst p \<or> snd q = snd p"
    proof (cases "fst q = fst p")
      case True
      with q have "(fst p, snd q) \<in> set ?E" by simp
      from eq_key_imp_eq_value[OF dist p this] show ?thesis by simp
    next
      case False
      then show ?thesis by simp
    qed
  qed
  then show ?thesis
    unfolding consistent_def list_all_iff case_prod_unfold .
qed

lemma remdups_absorb: "set xs \<subseteq> set ys \<Longrightarrow> remdups (xs @ ys) = remdups ys"
  by (induction xs) auto

lemma multilinear_summed:
  assumes "distinct (as @ [z])" "length as = length fs"
  shows "filter (\<lambda>c. c \<notin> set [z]) (remdups (map fst (zip as fs @ zip as fs @ [(z, out)]))) = as"
proof -
  have 1: "map fst (zip as fs @ zip as fs @ [(z, out)]) = as @ (as @ [z])"
    using assms(2) by simp
  have 2: "remdups (as @ (as @ [z])) = as @ [z]"
  proof -
    have "set as \<subseteq> set (as @ [z])" by auto
    from remdups_absorb[OF this] show ?thesis
      using assms(1) distinct_remdups_id[of "as @ [z]"] by simp
  qed
  have 3: "filter (\<lambda>c. c \<notin> set [z]) (as @ [z]) = as"
    using assms(1) by (auto simp: filter_id_conv)
  show ?thesis unfolding 1 2 by (rule 3)
qed

lemma multilinear_extents:
  assumes "distinct (as @ [z])" "length as = length fs"
  shows "map (lookup (zip as fs @ zip as fs @ [(z, out)])) as = fs"
    and "map (lookup (zip as fs @ zip as fs @ [(z, out)])) [z] = [out]"
proof -
  show "map (lookup (zip as fs @ zip as fs @ [(z, out)])) as = fs"
    using assms by (intro nth_equalityI) (auto simp: lookup_zip_nth)
  show "map (lookup (zip as fs @ zip as fs @ [(z, out)])) [z] = [out]"
    using assms by (simp add: lookup_skip) (simp add: lookup_def)
qed

lemma lookup_Cons_other: "c \<noteq> z \<Longrightarrow> lookup ((z, v) # rest) c = lookup rest c"
  by (simp add: lookup_def)

lemma lookup_Cons_same: "lookup ((z, v) # rest) z = v"
  by (simp add: lookup_def)

lemma lookup_zip_nth0:
  "distinct as \<Longrightarrow> length as = length vs \<Longrightarrow> k < length as \<Longrightarrow> lookup (zip as vs) (as ! k) = vs ! k"
  using lookup_zip_nth[of as vs k "[]"] by simp

lemma bcast_index_Nil [simp]: "bcast_index [] b = []"
  by (simp add: bcast_index_def)

lemma valid_index_snoc:
  "valid_index (sh @ [n]) idx \<longleftrightarrow>
     length idx = Suc (length sh) \<and> valid_index sh (take (length sh) idx) \<and> idx ! length sh < n"
proof (induction sh arbitrary: idx)
  case Nil
  show ?case
  proof (cases idx)
    case Nil
    then show ?thesis by simp
  next
    case (Cons i r)
    then show ?thesis by (cases r) auto
  qed
next
  case (Cons m sh)
  show ?case
  proof (cases idx)
    case Nil
    then show ?thesis by simp
  next
    case (Cons i r)
    then show ?thesis using Cons.IH[of r] by auto
  qed
qed

lemma einsum_multilinear:
  assumes parse: "parse_einsum s
                  = Inr (map (\<lambda>c. (True, [c])) as @ [(False, as @ [z])], (True, [z]))"
    and dist: "distinct (as @ [z])"
    and la: "length as = length xs" and lf: "length fs = length xs"
    and lb: "length batches = length xs"
    and shx: "\<forall>k < length xs. shape (xs ! k) = batches ! k @ [fs ! k]"
    and shw: "shape w = fs @ [out]"
    and bc: "broadcast_all batches = Some bsh"
  shows "einsum s (xs @ [w])
         = Inr (tabulate (bsh @ [out]) (\<lambda>idx.
             \<Sum>a\<leftarrow>indices fs.
               (\<Prod>k\<leftarrow>[0..<length xs].
                  item (xs ! k) (bcast_index (batches ! k) (take (length bsh) idx) @ [a ! k]))
               * item w (a @ [idx ! length bsh])))"
proof -
  let ?INSx = "map (\<lambda>c. (True, [c])) as"
  let ?wsub = "(False, as @ [z])"
  let ?INS = "?INSx @ [?wsub]"
  let ?OPS = "xs @ [w]"
  let ?D = "zip as fs @ zip as fs @ [(z, out)]"
  let ?P = "\<lambda>sub a. if fst sub then length (snd sub) \<le> ndim a else length (snd sub) = ndim a"
  have laf: "length as = length fs" using la lf by simp
  have c1: "(length ?INS \<noteq> length ?OPS) = False" using la by simp
  have c2: "(\<not> list_all2 ?P ?INS ?OPS) = False"
  proof -
    have "list_all2 ?P ?INSx xs"
      using la shx by (auto simp: list_all2_conv_all_nth ndim_def)
    moreover have "?P ?wsub w" using shw laf by (simp add: ndim_def)
    ultimately have "list_all2 ?P ?INS ?OPS" by (simp add: list_all2_appendI)
    then show ?thesis by simp
  qed
  have dims: "concat (map2 (\<lambda>sub a. label_dims sub (shape a)) ?INS ?OPS) = ?D"
    using la lf lb shx shw by (rule multilinear_dims)
  have c3: "(\<not> consistent ?D) = False"
    using consistent_dims[OF dist laf] by simp
  have zin: "z \<in> fst ` set ?D" by force
  have c4: "(\<not> distinct [z] \<or> \<not> list_all (\<lambda>c. c \<in> fst ` set ?D) [z]) = False"
    using zin by simp
  have bat: "broadcast_all (map2 (\<lambda>sub a. batch_shape sub (shape a)) ?INS ?OPS) = Some bsh"
    using multilinear_batches[OF la lf lb shx shw] bc by (simp add: broadcast_all_snoc_Nil)
  have c6: "(bsh \<noteq> [] \<and> \<not> True) = False" by simp
  note summed = multilinear_summed[OF dist laf, of out]
  note ext = multilinear_extents[OF dist laf, of out]
  let ?B0 = "\<lambda>idx. sum_list (map (\<lambda>s. prod_list (map2 (\<lambda>sub a.
                 item a (bcast_index (batch_shape sub (shape a)) (take (length bsh) idx)
                         @ map (lookup (zip [z] (drop (length bsh) idx) @ zip as s)) (snd sub)))
                 ?INS ?OPS)) (indices fs))"
  have e: "einsum s ?OPS = Inr (tabulate (bsh @ [out]) ?B0)"
    by (simp only: einsum_def parse bind_err_Inr prod.case fst_conv snd_conv c1 c2 if_False
        dims Let_def c3 c4 bat option.case c6 summed ext)
  have "tabulate (bsh @ [out]) ?B0
        = tabulate (bsh @ [out]) (\<lambda>idx.
             \<Sum>a\<leftarrow>indices fs.
               (\<Prod>k\<leftarrow>[0..<length xs].
                  item (xs ! k) (bcast_index (batches ! k) (take (length bsh) idx) @ [a ! k]))
               * item w (a @ [idx ! length bsh]))"
  proof (rule tabulate_cong)
    fix idx assume v: "valid_index (bsh @ [out]) idx"
    then have li: "length idx = Suc (length bsh)" by (simp add: valid_index_snoc)
    let ?b = "take (length bsh) idx" and ?o = "idx ! length bsh"
    have dr: "drop (length bsh) idx = [?o]"
      using li by (metis Cons_nth_drop_Suc drop_all lessI order_refl)
    have inner: "prod_list (map2 (\<lambda>sub a.
                 item a (bcast_index (batch_shape sub (shape a)) ?b
                         @ map (lookup (zip [z] (drop (length bsh) idx) @ zip as a')) (snd sub)))
                 ?INS ?OPS)
               = (\<Prod>k\<leftarrow>[0..<length xs]. item (xs ! k) (bcast_index (batches ! k) ?b @ [a' ! k]))
                 * item w (a' @ [?o])"
      if a': "a' \<in> set (indices fs)" for a'
    proof -
      have la': "length a' = length as"
        using a' laf by (auto simp: set_indices dest: valid_index_length)
      let ?env = "(z, ?o) # zip as a'"
      let ?H = "\<lambda>sub a. item a (bcast_index (batch_shape sub (shape a)) ?b
                         @ map (lookup ?env) (snd sub))"
      have env: "zip [z] (drop (length bsh) idx) @ zip as a' = ?env" by (simp add: dr)
      have lk: "lookup ?env (as ! k) = a' ! k" if "k < length as" for k
      proof -
        have "as ! k \<noteq> z" using dist that by auto
        then show ?thesis using dist la' that by (simp add: lookup_Cons_other lookup_zip_nth0)
      qed
      have mp: "map (lookup ?env) as = a'"
        using la' lk by (intro nth_equalityI) auto
      have xs_part: "map2 ?H ?INSx xs
                     = map (\<lambda>k. item (xs ! k) (bcast_index (batches ! k) ?b @ [a' ! k])) [0..<length xs]"
        unfolding map2_map_nth[OF la]
        by (rule map_cong) (use shx la lk in \<open>auto simp: batch_shape_def\<close>)
      have w_part: "?H ?wsub w = item w (a' @ [?o])"
        using shw laf by (simp add: batch_shape_def mp lookup_Cons_same)
      have "map2 ?H ?INS ?OPS = map2 ?H ?INSx xs @ [?H ?wsub w]"
        using la by (intro map2_snoc) simp
      then show ?thesis
        unfolding env by (simp only: xs_part w_part prod_list.append prod_list.Cons prod_list.Nil mult_1_right)
    qed
    show "?B0 idx = (\<Sum>a\<leftarrow>indices fs.
               (\<Prod>k\<leftarrow>[0..<length xs]. item (xs ! k) (bcast_index (batches ! k) ?b @ [a ! k]))
               * item w (a @ [?o]))"
      by (rule arg_cong[where f=sum_list], rule map_cong[OF refl]) (rule inner)
  qed
  then show ?thesis using e by simp
qed

lemma broadcast_shapes_trailing: "broadcast_shapes (bs @ [n]) [n] = Some (bs @ [n])"
proof -
  let ?t = "replicate (length bs) 1 @ [n]"
  have a: "list_all2 (\<lambda>a b. a = b \<or> a = 1 \<or> b = 1) (bs @ [n]) ?t"
    by (intro list_all2_appendI) (simp_all add: list_all2_conv_all_nth)
  have "map2 (\<lambda>a b. if a = 1 then b else a) bs (replicate (length bs) 1) = bs"
    by (intro nth_equalityI) auto
  then have b: "map2 (\<lambda>a b. if a = 1 then b else a) (bs @ [n]) ?t = bs @ [n]"
    by simp
  show ?thesis
    using a b by (simp add: broadcast_shapes_def Let_def)
qed

lemma binop_trailing:
  assumes "shape a = bs @ [n]" "shape c = [n]"
  shows "binop f a c
         = Inr (tabulate (bs @ [n]) (\<lambda>idx. f (item a idx) (item c [idx ! length bs])))"
proof -
  have bsh: "broadcast_shapes (shape a) (shape c) = Some (bs @ [n])"
    using assms by (simp add: broadcast_shapes_trailing)
  have "tabulate (bs @ [n]) (\<lambda>idx. f (item a (bcast_index (shape a) idx))
                                       (item c (bcast_index (shape c) idx)))
        = tabulate (bs @ [n]) (\<lambda>idx. f (item a idx) (item c [idx ! length bs]))"
  proof (rule tabulate_cong)
    fix idx assume v: "valid_index (bs @ [n]) idx"
    then have li: "length idx = Suc (length bs)" and j: "idx ! length bs < n"
      by (simp_all add: valid_index_snoc)
    have dr: "drop (length bs) idx = [idx ! length bs]"
      using li by (metis Cons_nth_drop_Suc drop_all lessI order_refl)
    have 1: "bcast_index (shape a) idx = idx" using v assms(1) by (simp add: bcast_index_valid)
    have 2: "bcast_index (shape c) idx = [idx ! length bs]"
      using j by (auto simp: bcast_index_def assms(2) li dr)
    show "f (item a (bcast_index (shape a) idx)) (item c (bcast_index (shape c) idx))
          = f (item a idx) (item c [idx ! length bs])"
      by (simp only: 1 2)
  qed
  then show ?thesis using binop_Inr[OF bsh, of f] by simp
qed

section \<open>The claims\<close>

text \<open>
  C9. Flatten and Unflatten are inverse to each other: for \<open>0 \<le> s \<le> e < ndim x\<close>,
  \<open>flatten x s e\<close> returns an array \<open>y\<close> in which the dimensions \<open>s..e\<close> of
  \<open>x\<close> are collapsed into one dimension whose size is their product, every element of
  \<open>x\<close> is found in \<open>y\<close> at the index that row-major order gives it, unflattening
  \<open>y\<close> at dimension \<open>s\<close> with the collapsed extents returns \<open>x\<close> exactly, and the
  negative indices \<open>s - ndim x\<close> and \<open>e - ndim x\<close> name the same dimensions.
\<close>

theorem flatten_unflatten_inverse:
  assumes "s \<le> e" and "e < ndim x"
  shows "\<exists>y. flatten x (int s) (int e) = Inr y
           \<and> shape y = take s (shape x) @ [prod_list (drop s (take (Suc e) (shape x)))]
                        @ drop (Suc e) (shape x)
           \<and> (\<forall>idx. valid_index (shape x) idx
                 \<longrightarrow> item y (collapse_index (shape x) s e idx) = item x idx)
           \<and> unflatten y (int s) (drop s (take (Suc e) (shape x))) = Inr x
           \<and> flatten x (int s - int (ndim x)) (int e - int (ndim x)) = Inr y"
proof -
  let ?sh = "shape x"
  let ?new = "take s ?sh @ [prod_list (drop s (take (Suc e) ?sh))] @ drop (Suc e) ?sh"
  let ?y = "NDArray ?new (data x)"
  have sb1: "slice_bound (ndim x) (int s) = s" "slice_bound (ndim x) (int e + 1) = Suc e"
    using assms by (auto simp: slice_bound_def)
  have prod: "prod_list ?new = prod_list ?sh"
  proof -
    have "prod_list ?sh = prod_list (take s ?sh @ drop s (take (Suc e) ?sh) @ drop (Suc e) ?sh)"
      using split3[OF assms(1)] by metis
    then show ?thesis by simp
  qed
  have f: "flatten x (int s) (int e) = Inr ?y"
    using assms prod by (simp add: flatten_def collapse_def sb1 reshape_def Let_def)
  have neg: "flatten x (int s - int (ndim x)) (int e - int (ndim x)) = Inr ?y"
    using assms prod by (simp add: flatten_def collapse_def sb1 reshape_def Let_def)
  have un: "unflatten ?y (int s) (drop s (take (Suc e) ?sh)) = Inr x"
  proof -
    have len: "length ?new = Suc (s + (length ?sh - Suc e))"
      using assms by (simp add: ndim_def)
    have a: "py_take ?new (int s) = take s ?sh"
      using assms by (simp add: py_take_def slice_bound_def ndim_def)
    have b: "py_drop ?new (int s + 1) = drop (Suc e) ?sh"
    proof -
      have "slice_bound (length ?new) (int s + 1) = Suc s"
        unfolding len by (simp add: slice_bound_def)
      then show ?thesis using assms by (simp add: py_drop_def ndim_def)
    qed
    have c: "py_take ?new (int s) @ drop s (take (Suc e) ?sh) @ py_drop ?new (int s + 1) = ?sh"
      unfolding a b using split3[OF assms(1)] by metis
    have "unflatten ?y (int s) (drop s (take (Suc e) ?sh))
          = reshape ?y (py_take ?new (int s) @ drop s (take (Suc e) ?sh) @ py_drop ?new (int s + 1))"
      by (simp add: unflatten_def Let_def)
    also have "\<dots> = reshape ?y ?sh" by (simp only: c)
    also have "\<dots> = Inr x" using prod by (cases x) (simp add: reshape_def)
    finally show ?thesis .
  qed
  have el: "\<forall>idx. valid_index ?sh idx \<longrightarrow> item ?y (collapse_index ?sh s e idx) = item x idx"
  proof (intro allI impI)
    fix idx assume "valid_index ?sh idx"
    then have "length idx = length ?sh" by (rule valid_index_length)
    then have "ravel ?new (collapse_index ?sh s e idx) = ravel ?sh idx"
      using assms ravel_collapse[of s e ?sh idx] by (simp add: ndim_def)
    then show "item ?y (collapse_index ?sh s e idx) = item x idx"
      by (simp add: item_def)
  qed
  show ?thesis using f neg un el by simp
qed

theorem flatten_unflatten_inverse_witness:
  "\<exists>y. flatten (NDArray [2, 3, 2] [1, 2, 3, 4, 5, 6, 7, 8, 9, 10, 11, 12 :: int]) 1 2 = Inr y
     \<and> shape y = [2, 6]
     \<and> unflatten y 1 [3, 2] = Inr (NDArray [2, 3, 2] [1, 2, 3, 4, 5, 6, 7, 8, 9, 10, 11, 12])
     \<and> flatten (NDArray [2, 3, 2] [1, 2, 3, 4, 5, 6, 7, 8, 9, 10, 11, 12 :: int]) (- 2) (- 1) = Inr y"
proof -
  let ?x = "NDArray [2, 3, 2] [1, 2, 3, 4, 5, 6, 7, 8, 9, 10, 11, 12 :: int]"
  have h1: "(1::nat) \<le> 2" by simp
  have h2: "2 < ndim ?x" by (simp add: ndim_def)
  from flatten_unflatten_inverse [OF h1 h2] obtain y where
    y: "flatten ?x (int 1) (int 2) = Inr y"
       "shape y = take 1 (shape ?x) @ [prod_list (drop 1 (take (Suc 2) (shape ?x)))]
                  @ drop (Suc 2) (shape ?x)"
       "unflatten y (int 1) (drop 1 (take (Suc 2) (shape ?x))) = Inr ?x"
       "flatten ?x (int 1 - int (ndim ?x)) (int 2 - int (ndim ?x)) = Inr y"
    by blast
  have "flatten ?x 1 2 = Inr y" using y(1) by simp
  moreover have "shape y = [2, 6]" using y(2) by simp
  moreover have "unflatten y 1 [3, 2] = Inr ?x" using y(3) by simp
  moreover have "flatten ?x (- 2) (- 1) = Inr y" using y(4) by (simp add: ndim_def)
  ultimately show ?thesis by blast
qed

text \<open>
  C5. For a channel-first array \<open>x\<close> of shape \<open>(c, *sp)\<close> and sizes with
  \<open>sizes[k] \<le> sp[k]\<close> on every spatial axis, CenterCropND returns an array of shape
  \<open>(c, *sizes)\<close> whose element at spatial index \<open>idx\<close> of channel \<open>ch\<close> is the
  element of \<open>x\<close> at \<open>start + idx\<close> of the same channel, where
  \<open>start[k] = max(sp[k] // 2 - sizes[k] // 2, 0)\<close>.
\<close>

theorem CenterCropND_call_indices:
  assumes "wf_array x" and "shape x = c # sp" and "cc_spatial_ndim self = length sp"
    and "list_all2 (\<le>) (cc_size self) sp"
  shows "\<exists>y. CenterCropND_call self x = Inr y
           \<and> shape y = c # cc_size self
           \<and> (\<forall>ch idx. ch < c \<and> valid_index (cc_size self) idx \<longrightarrow>
                 item y (ch # idx)
                 = item x (ch # map2 (+) (map2 center_start sp (cc_size self)) idx))"
proof -
  let ?sizes = "cc_size self"
  let ?f = "\<lambda>a. center_crop_nd a ?sizes"
  let ?st = "map2 center_start sp ?sizes"
  let ?y = "tabulate (c # ?sizes) (\<lambda>idx. item (projr (?f (index_first x (hd idx)))) (tl idx))"
  have p: "?f (NDArray sp []) = Inr (tabulate ?sizes (\<lambda>idx. item (NDArray sp []) (map2 (+) ?st idx)))"
    by (rule center_crop_nd_Inr) (use assms in auto)
  have call: "CenterCropND_call self x = Inr ?y"
    using assms(2,3) vmap_Inr[where f="?f", OF assms(2) p]
    by (simp add: CenterCropND_call_def validate_spatial_nd_def ndim_def)
  have el: "item ?y (ch # idx) = item x (ch # map2 (+) ?st idx)"
    if "ch < c" and v: "valid_index ?sizes idx" for ch idx
  proof -
    have "shape (index_first x ch) = sp" using assms(2) by simp
    then have cc: "?f (index_first x ch)
        = Inr (tabulate ?sizes (\<lambda>idx. item (index_first x ch) (map2 (+) ?st idx)))"
      using assms(4) by (intro center_crop_nd_Inr)
    have "item ?y (ch # idx) = item (projr (?f (index_first x ch))) idx"
      using that by (simp add: item_tabulate)
    also have "\<dots> = item (index_first x ch) (map2 (+) ?st idx)"
      using v by (simp add: cc item_tabulate)
    also have "\<dots> = item x (ch # map2 (+) ?st idx)"
      using assms(1,2) that(1) valid_index_add_start[OF assms(4) v] by (rule item_index_first)
    finally show ?thesis .
  qed
  show ?thesis using call el by simp
qed

theorem CenterCropND_call_indices_witness:
  "\<exists>y. CenterCropND_call \<lparr>cc_size = [2], cc_spatial_ndim = 1\<rparr>
         (NDArray [1, 4] [10, 20, 30, 40 :: int]) = Inr y
     \<and> shape y = [1, 2] \<and> item y [0, 0] = 20 \<and> item y [0, 1] = 30"
proof -
  let ?x = "NDArray [1, 4] [10, 20, 30, 40 :: int]"
  let ?self = "\<lparr>cc_size = [2], cc_spatial_ndim = 1\<rparr>"
  have h1: "wf_array ?x" by (simp add: wf_array_def)
  have h2: "shape ?x = 1 # [4]" by simp
  have h3: "cc_spatial_ndim ?self = length [4::nat]" by simp
  have h4: "list_all2 (\<le>) (cc_size ?self) [4::nat]" by simp
  from CenterCropND_call_indices [OF h1 h2 h3 h4] obtain y where
    y: "CenterCropND_call ?self ?x = Inr y" "shape y = 1 # cc_size ?self"
       "\<forall>ch idx. ch < 1 \<and> valid_index (cc_size ?self) idx \<longrightarrow>
          item y (ch # idx) = item ?x (ch # map2 (+) (map2 center_start [4] (cc_size ?self)) idx)"
    by blast
  have "item y (0 # [0]) = item ?x (0 # map2 (+) (map2 center_start [4] (cc_size ?self)) [0])"
    using y(3) by simp
  then have a: "item y [0, 0] = 20" by (simp add: center_start_def item_def)
  have "item y (0 # [1]) = item ?x (0 # map2 (+) (map2 center_start [4] (cc_size ?self)) [1])"
    using y(3) by simp
  then have b: "item y [0, 1] = 30" by (simp add: center_start_def item_def)
  show ?thesis using y(1,2) a b by simp
qed

text \<open>
  C10. The two PadND implementations are equivalent: for a channel-first array \<open>x\<close>
  of shape \<open>(c, *sp)\<close> and equal canonicalized paddings (one pair per spatial axis)
  and equal pad values, the older PadND, which pads the whole array with
  \<open>((0, 0), *padding)\<close>, and the newer PadND, which maps \<open>jnp.pad\<close> over the channel
  axis, return the same array. The channel axis keeps its extent, each spatial axis grows
  by its left plus right padding, and the new positions hold the pad value.
\<close>

theorem PadND_old_new_equal:
  assumes wfx: "wf_array x" and shx: "shape x = c # sp"
    and nd_new: "pd_spatial_ndim self = length sp" and nd_old: "lp_ndim old = length sp"
    and lenp: "length (pd_padding self) = length sp" and spne: "sp \<noteq> []"
    and same_padding: "lp_padding old = pd_padding self"
    and same_value: "lp_value old = pd_value self"
  shows "\<exists>y. PadND_legacy_call old x = Inr y \<and> PadND_call self x = Inr y
           \<and> shape y = c # pad_shape sp (pd_padding self)
           \<and> (\<forall>ch idx. ch < c \<and> valid_index (pad_shape sp (pd_padding self)) idx \<longrightarrow>
                 item y (ch # idx)
                 = (if in_interior sp (pd_padding self) idx
                    then item x (ch # unpad_index (pd_padding self) idx)
                    else pd_value self))"
proof -
  let ?pw = "pd_padding self" and ?v = "pd_value self"
  let ?psh = "pad_shape sp ?pw"
  let ?F = "\<lambda>idx. if in_interior (c # sp) ((0, 0) # ?pw) idx
                   then item x (unpad_index ((0, 0) # ?pw) idx) else ?v"
  let ?f = "\<lambda>a. jnp_pad a ?pw ?v"
  let ?G = "\<lambda>idx. item (projr (?f (index_first x (hd idx)))) (tl idx)"
  let ?y = "tabulate (c # ?psh) ?F"
  have pwne: "?pw \<noteq> []" using lenp spne by auto
  have old: "PadND_legacy_call old x = Inr ?y"
  proof -
    have "jnp_pad x ((0, 0) # ?pw) ?v = Inr (tabulate (pad_shape (shape x) ((0, 0) # ?pw))
             (\<lambda>idx. if in_interior (shape x) ((0, 0) # ?pw) idx
                     then item x (unpad_index ((0, 0) # ?pw) idx) else ?v))"
      by (rule jnp_pad_Inr) (use shx lenp in auto)
    then show ?thesis
      using shx nd_old same_padding same_value
      by (simp add: PadND_legacy_call_def validate_spatial_nd_def ndim_def pad_shape_def)
  qed
  have proto: "?f (NDArray sp []) = Inr (tabulate ?psh
                 (\<lambda>idx. if in_interior sp ?pw idx
                         then item (NDArray sp []) (unpad_index ?pw idx) else ?v))"
    using jnp_pad_Inr[of ?pw "NDArray sp []" ?v] pwne lenp by simp
  have new0: "PadND_call self x = Inr (tabulate (c # ?psh) ?G)"
    using shx nd_new vmap_Inr[where f="?f", OF shx proto]
    by (simp add: PadND_call_def validate_spatial_nd_def ndim_def Let_def)
  have FG: "?G idx = ?F idx" if v: "valid_index (c # ?psh) idx" for idx
  proof -
    from v obtain ch r where idx: "idx = ch # r" and ch: "ch < c" and r: "valid_index ?psh r"
      by (cases idx) auto
    have lr: "length r = length sp"
      using valid_index_length[OF r] lenp by (simp add: length_pad_shape)
    have sh1: "shape (index_first x ch) = sp" using shx by simp
    have pe: "?f (index_first x ch) = Inr (tabulate ?psh
                 (\<lambda>idx. if in_interior sp ?pw idx
                         then item (index_first x ch) (unpad_index ?pw idx) else ?v))"
    proof -
      have "length ?pw = length (shape (index_first x ch))" using lenp sh1 by simp
      from jnp_pad_Inr[OF pwne this] show ?thesis unfolding sh1 .
    qed
    have G: "?G idx = (if in_interior sp ?pw r
                         then item (index_first x ch) (unpad_index ?pw r) else ?v)"
      using r by (simp add: idx pe item_tabulate)
    have F: "?F idx = (if in_interior sp ?pw r then item x (ch # unpad_index ?pw r) else ?v)"
      using ch by (simp add: idx in_interior_def unpad_index_def)
    show ?thesis
    proof (cases "in_interior sp ?pw r")
      case True
      have "item (index_first x ch) (unpad_index ?pw r) = item x (ch # unpad_index ?pw r)"
        using wfx shx ch unpad_valid[OF lr lenp[symmetric] True] by (rule item_index_first)
      then show ?thesis using G F True by simp
    next
      case False
      then show ?thesis using G F by simp
    qed
  qed
  have new: "PadND_call self x = Inr ?y"
    using new0 tabulate_cong[of "c # ?psh" ?G ?F, OF FG] by simp
  have el: "item ?y (ch # idx)
            = (if in_interior sp ?pw idx then item x (ch # unpad_index ?pw idx) else ?v)"
    if "ch < c" "valid_index ?psh idx" for ch idx
    using that by (simp add: item_tabulate in_interior_def unpad_index_def)
  show ?thesis using old new el by simp
qed

theorem PadND_old_new_equal_witness:
  "\<exists>y. PadND_legacy_call \<lparr>lp_ndim = 1, lp_padding = [(1, 2)], lp_value = 0\<rparr>
         (NDArray [2, 1] [5, 6 :: int]) = Inr y
     \<and> PadND_call \<lparr>pd_padding = [(1, 2)], pd_value = 0, pd_spatial_ndim = 1\<rparr>
         (NDArray [2, 1] [5, 6 :: int]) = Inr y
     \<and> shape y = [2, 4] \<and> item y [1, 1] = 6 \<and> item y [1, 2] = 0"
proof -
  let ?x = "NDArray [2, 1] [5, 6 :: int]"
  let ?old = "\<lparr>lp_ndim = 1, lp_padding = [(1, 2)], lp_value = 0 :: int\<rparr>"
  let ?new = "\<lparr>pd_padding = [(1, 2)], pd_value = 0 :: int, pd_spatial_ndim = 1\<rparr>"
  have h1: "wf_array ?x" by (simp add: wf_array_def)
  have h2: "shape ?x = 2 # [1]" by simp
  have h3: "pd_spatial_ndim ?new = length [1::nat]" by simp
  have h4: "lp_ndim ?old = length [1::nat]" by simp
  have h5: "length (pd_padding ?new) = length [1::nat]" by simp
  have h6: "[1::nat] \<noteq> []" by simp
  have h7: "lp_padding ?old = pd_padding ?new" by simp
  have h8: "lp_value ?old = pd_value ?new" by simp
  from PadND_old_new_equal [OF h1 h2 h3 h4 h5 h6 h7 h8] obtain y where
    y: "PadND_legacy_call ?old ?x = Inr y" "PadND_call ?new ?x = Inr y"
       "shape y = 2 # pad_shape [1] (pd_padding ?new)"
       "\<forall>ch idx. ch < 2 \<and> valid_index (pad_shape [1] (pd_padding ?new)) idx \<longrightarrow>
          item y (ch # idx)
          = (if in_interior [1] (pd_padding ?new) idx
             then item ?x (ch # unpad_index (pd_padding ?new) idx) else pd_value ?new)"
    by blast
  have s: "shape y = [2, 4]" using y(3) by (simp add: pad_shape_def)
  have "item y (1 # [1])
          = (if in_interior [1] (pd_padding ?new) [1]
             then item ?x (1 # unpad_index (pd_padding ?new) [1]) else pd_value ?new)"
    using y(4) by (simp add: pad_shape_def)
  then have a: "item y [1, 1] = 6"
    by (simp add: in_interior_def unpad_index_def item_def)
  have "item y (1 # [2])
          = (if in_interior [1] (pd_padding ?new) [2]
             then item ?x (1 # unpad_index (pd_padding ?new) [2]) else pd_value ?new)"
    using y(4) by (simp add: pad_shape_def)
  then have b: "item y [1, 2] = 0"
    by (simp add: in_interior_def unpad_index_def item_def)
  show ?thesis using y(1,2) s a b by simp
qed

text \<open>
  C6. For tuples \<open>in_features\<close> and \<open>in_axes\<close> and a valid (callable,
  shape-respecting) weight initializer, the GeneralLinear constructor raises ValueError
  if and only if the two tuples differ in length, and when it does not raise, the weight
  has shape \<open>(*in_features, out_features)\<close>.
\<close>

theorem GeneralLinear_init_raises_iff:
  assumes "shape_respecting winit k (in_features @ [out_features])"
  shows "(GeneralLinear_init in_features out_features in_axes (Some winit) binit k = Inl ValueError
            \<longleftrightarrow> length in_axes \<noteq> length in_features)
       \<and> (\<forall>layer. GeneralLinear_init in_features out_features in_axes (Some winit) binit k = Inr layer
            \<longrightarrow> shape (gl_weight layer) = in_features @ [out_features])"
  using assms by (auto simp: GeneralLinear_init_def shape_respecting_def)

theorem GeneralLinear_init_raises_iff_witness:
  "GeneralLinear_init [1, 2] 5 [0] (Some ones_init) None 0 = Inl ValueError
   \<and> (\<exists>layer. GeneralLinear_init [1, 2] 5 [0, 1] (Some ones_init) None 0 = Inr layer
         \<and> shape (gl_weight layer) = [1, 2, 5])"
proof -
  have h: "shape_respecting ones_init 0 ([1, 2] @ [5])"
    by (simp add: shape_respecting_def ones_init_def)
  have a: "GeneralLinear_init [1, 2] 5 [0, 1] (Some ones_init) None 0 \<noteq> Inl ValueError"
    using GeneralLinear_init_raises_iff [OF h, of "[0, 1]" None] by simp
  have b: "GeneralLinear_init [1, 2] 5 [0] (Some ones_init) None 0 = Inl ValueError"
    using GeneralLinear_init_raises_iff [OF h, of "[0]" None] by simp
  obtain layer where
    l: "GeneralLinear_init [1, 2] 5 [0, 1] (Some ones_init) None 0 = Inr layer"
    by (simp add: GeneralLinear_init_def)
  then have "shape (gl_weight layer) = [1, 2] @ [5]"
    using GeneralLinear_init_raises_iff [OF h, of "[0, 1]" None] by blast
  then show ?thesis using b l by simp
qed

text \<open>
  C1. Under \<open>jax.vmap\<close>, a training call of BatchNorm on a batch \<open>x\<close> and a state whose statistics have shape \<open>(F,)\<close>, \<open>F\<close> the extent of the
  feature axis, returns the new state with
  \<open>running_mean' = m * running_mean + (1 - m) * batch_mean\<close> and
  \<open>running_var' = m * running_var + (1 - m) * batch_var\<close>, where \<open>batch_mean\<close> is the
  mean of \<open>x\<close> over all axes except the feature axis and
  \<open>batch_var = mean(x^2) - batch_mean^2\<close>; the returned array is
  \<open>(x - batch_mean) / sqrt(batch_var + eps)\<close>, multiplied by the weight and incremented
  by the bias when those are present. When the layer names a mapped axis, the collective
  mean over that axis is taken to return its argument (one participant), so that the
  batch statistics are those of \<open>x\<close>.
\<close>

theorem BatchNorm_training_update:
  assumes wfx: "wf_array x" and axis: "py_index (ndim x) (bn_axis self) = Inr ax"
    and rm: "shape (running_mean state) = [shape x ! ax]" "wf_array (running_mean state)"
    and rv: "shape (running_var state) = [shape x ! ax]" "wf_array (running_var state)"
    and weight: "param_ok (shape x ! ax) (bn_weight self)"
    and bias: "param_ok (shape x ! ax) (bn_bias self)"
    and axis_name: "\<And>name a. bn_axis_name self = Some name \<Longrightarrow> pmean name a = a"
  shows "\<exists>out st. BatchNorm_call_vmap pmean self x (Some state) = Inr (out, st)
           \<and> shape (running_mean st) = [shape x ! ax]
           \<and> shape (running_var st) = [shape x ! ax]
           \<and> (\<forall>f < shape x ! ax. item (running_mean st) [f]
                 = bn_momentum self * item (running_mean state) [f]
                   + (1 - bn_momentum self) * spec_batch_mean x ax f)
           \<and> (\<forall>f < shape x ! ax. item (running_var st) [f]
                 = bn_momentum self * item (running_var state) [f]
                   + (1 - bn_momentum self) * spec_batch_var x ax f)
           \<and> shape out = shape x
           \<and> (\<forall>idx. valid_index (shape x) idx \<longrightarrow> item out idx
                 = opt_shift (bn_bias self) (idx ! ax) (opt_scale (bn_weight self) (idx ! ax)
                     ((item x idx - spec_batch_mean x ax (idx ! ax))
                        / sqrt (spec_batch_var x ax (idx ! ax) + bn_eps self))))"
proof -
  have "BatchNorm_call_vmap pmean self x (Some state)
        = batchnorm_impl pmean x state (bn_momentum self) (bn_eps self) (bn_weight self)
            (bn_bias self) False (bn_axis self) (bn_axis_name self)"
    by (simp add: BatchNorm_call_vmap_def)
  also note batchnorm_impl_train[OF wfx axis rm rv weight bias axis_name,
      where m="bn_momentum self" and eps="bn_eps self"]
  finally show ?thesis by (simp add: item_tabulate)
qed

theorem BatchNorm_training_update_witness:
  "\<exists>out st. BatchNorm_call_vmap (\<lambda>_ a. a)
       \<lparr>bn_in_features = 2, bn_momentum = 1 / 2, bn_eps = 3, bn_weight_init = InitNone,
        bn_bias_init = InitNone, bn_axis = 1, bn_axis_name = Some ''batch'', bn_weight = None,
        bn_bias = None\<rparr>
       (NDArray [2, 2] [1, 2, 3, 4])
       (Some \<lparr>running_mean = NDArray [2] [0, 0], running_var = NDArray [2] [1, 1]\<rparr>)
     = Inr (out, st)
     \<and> item (running_mean st) [0] = 1 \<and> item (running_var st) [0] = 1
     \<and> item out [0, 0] = - 1 / 2"
proof -
  let ?self = "\<lparr>bn_in_features = 2, bn_momentum = 1 / 2, bn_eps = 3, bn_weight_init = InitNone,
        bn_bias_init = InitNone, bn_axis = 1, bn_axis_name = Some ''batch'', bn_weight = None,
        bn_bias = None\<rparr>"
  let ?x = "NDArray [2, 2] [1, 2, 3, 4 :: real]"
  let ?state = "\<lparr>running_mean = NDArray [2] [0, 0], running_var = NDArray [2] [1, 1 :: real]\<rparr>"
  have h1: "wf_array ?x" by (simp add: wf_array_def)
  have h2: "py_index (ndim ?x) (bn_axis ?self) = Inr 1" by (simp add: py_index_def ndim_def)
  have h3: "shape (running_mean ?state) = [shape ?x ! 1]" by simp
  have h4: "wf_array (running_mean ?state)" by (simp add: wf_array_def)
  have h5: "shape (running_var ?state) = [shape ?x ! 1]" by simp
  have h6: "wf_array (running_var ?state)" by (simp add: wf_array_def)
  have h7: "param_ok (shape ?x ! 1) (bn_weight ?self)" by (simp add: param_ok_def)
  have h8: "param_ok (shape ?x ! 1) (bn_bias ?self)" by (simp add: param_ok_def)
  have h9: "(\<lambda>_ a. a) name a = a" for name :: string and a :: "real ndarray" by simp
  have ind: "indices [2, 2] = [[0, 0], [0, 1], [1, 0], [1, 1]]"
    by (simp add: upt_rec)
  have fs: "feature_slice ?x (Suc 0) 0 = [1, 3]"
    unfolding feature_slice_def ndarray.sel ind by (simp add: item_def)
  have bm: "spec_batch_mean ?x (Suc 0) 0 = 2"
    unfolding spec_batch_mean_def fs mean_def by simp
  have bv: "spec_batch_var ?x (Suc 0) 0 = 1"
    unfolding spec_batch_var_def fs bm mean_def by simp
  from BatchNorm_training_update [where pmean = "\<lambda>_ a. a", OF h1 h2 h3 h4 h5 h6 h7 h8 h9]
  obtain out st where
    r: "BatchNorm_call_vmap (\<lambda>_ a. a) ?self ?x (Some ?state) = Inr (out, st)"
    and m: "\<forall>f < shape ?x ! 1. item (running_mean st) [f]
                 = bn_momentum ?self * item (running_mean ?state) [f]
                   + (1 - bn_momentum ?self) * spec_batch_mean ?x 1 f"
    and v: "\<forall>f < shape ?x ! 1. item (running_var st) [f]
                 = bn_momentum ?self * item (running_var ?state) [f]
                   + (1 - bn_momentum ?self) * spec_batch_var ?x 1 f"
    and o: "\<forall>idx. valid_index (shape ?x) idx \<longrightarrow> item out idx
                 = opt_shift (bn_bias ?self) (idx ! 1) (opt_scale (bn_weight ?self) (idx ! 1)
                     ((item ?x idx - spec_batch_mean ?x 1 (idx ! 1))
                        / sqrt (spec_batch_var ?x 1 (idx ! 1) + bn_eps ?self)))"
    by blast
  have "item (running_mean st) [0] = bn_momentum ?self * item (running_mean ?state) [0]
                   + (1 - bn_momentum ?self) * spec_batch_mean ?x 1 0"
    using m by simp
  then have a: "item (running_mean st) [0] = 1" by (simp add: bm item_def)
  have "item (running_var st) [0] = bn_momentum ?self * item (running_var ?state) [0]
                   + (1 - bn_momentum ?self) * spec_batch_var ?x 1 0"
    using v by simp
  then have b: "item (running_var st) [0] = 1" by (simp add: bv item_def)
  have "valid_index (shape ?x) [0, 0]" by simp
  with o have "item out [0, 0]
                 = opt_shift (bn_bias ?self) ([0, 0] ! 1) (opt_scale (bn_weight ?self) ([0, 0] ! 1)
                     ((item ?x [0, 0] - spec_batch_mean ?x 1 ([0, 0] ! 1))
                        / sqrt (spec_batch_var ?x 1 ([0, 0] ! 1) + bn_eps ?self)))"
    by blast
  then have c: "item out [0, 0] = - 1 / 2"
    by (simp add: opt_shift_def opt_scale_def bm bv item_def)
  show ?thesis using r a b c by blast
qed

text \<open>
  C8. EvalNorm never modifies the running statistics: whenever its call under
  \<open>jax.vmap\<close> returns, the returned state is the state it was given, and for a batch
  and a state of fitting shapes the call does return (the collective mean over a named
  axis, which the discarded training branch applies, being taken to return its argument).
\<close>

theorem EvalNorm_state_unchanged:
  "(\<forall>out st'. EvalNorm_call_vmap pmean self x (Some state) = Inr (out, st') \<longrightarrow> st' = state)
   \<and> (wf_array x \<and> py_index (ndim x) (en_axis self) = Inr ax
        \<and> shape (running_mean state) = [shape x ! ax] \<and> wf_array (running_mean state)
        \<and> shape (running_var state) = [shape x ! ax] \<and> wf_array (running_var state)
        \<and> param_ok (shape x ! ax) (en_weight self) \<and> param_ok (shape x ! ax) (en_bias self)
        \<and> (\<forall>name a. en_axis_name self = Some name \<longrightarrow> pmean name a = a)
      \<longrightarrow> (\<exists>out. EvalNorm_call_vmap pmean self x (Some state) = Inr (out, state)))"
proof (intro conjI allI impI)
  fix out st'
  assume "EvalNorm_call_vmap pmean self x (Some state) = Inr (out, st')"
  then have "batchnorm_impl pmean x state 0 (en_eps self) (en_weight self) (en_bias self) True
               (en_axis self) (en_axis_name self) = Inr (out, st')"
    by (simp add: EvalNorm_call_vmap_def)
  then show "st' = state" by (rule batchnorm_impl_eval_state)
next
  assume h: "wf_array x \<and> py_index (ndim x) (en_axis self) = Inr ax
        \<and> shape (running_mean state) = [shape x ! ax] \<and> wf_array (running_mean state)
        \<and> shape (running_var state) = [shape x ! ax] \<and> wf_array (running_var state)
        \<and> param_ok (shape x ! ax) (en_weight self) \<and> param_ok (shape x ! ax) (en_bias self)
        \<and> (\<forall>name a. en_axis_name self = Some name \<longrightarrow> pmean name a = a)"
  then have "\<exists>out. batchnorm_impl pmean x state 0 (en_eps self) (en_weight self) (en_bias self)
               True (en_axis self) (en_axis_name self) = Inr (out, state)"
    by (intro batchnorm_impl_eval_returns) auto
  then show "\<exists>out. EvalNorm_call_vmap pmean self x (Some state) = Inr (out, state)"
    by (simp add: EvalNorm_call_vmap_def)
qed

theorem EvalNorm_state_unchanged_witness:
  "\<exists>out. EvalNorm_call_vmap (\<lambda>_ a. a)
       \<lparr>en_in_features = 2, en_momentum = 1 / 2, en_eps = 3, en_weight_init = InitNone,
        en_bias_init = InitNone, en_axis = 1, en_axis_name = Some ''batch'', en_weight = None,
        en_bias = None\<rparr>
       (NDArray [2, 2] [1, 2, 3, 4])
       (Some \<lparr>running_mean = NDArray [2] [5, 6], running_var = NDArray [2] [7, 8]\<rparr>)
     = Inr (out, \<lparr>running_mean = NDArray [2] [5, 6], running_var = NDArray [2] [7, 8]\<rparr>)"
proof -
  let ?self = "\<lparr>en_in_features = 2, en_momentum = 1 / 2, en_eps = 3, en_weight_init = InitNone,
        en_bias_init = InitNone, en_axis = 1, en_axis_name = Some ''batch'', en_weight = None,
        en_bias = None\<rparr>"
  let ?x = "NDArray [2, 2] [1, 2, 3, 4 :: real]"
  let ?state = "\<lparr>running_mean = NDArray [2] [5, 6], running_var = NDArray [2] [7, 8 :: real]\<rparr>"
  have h: "wf_array ?x \<and> py_index (ndim ?x) (en_axis ?self) = Inr 1
        \<and> shape (running_mean ?state) = [shape ?x ! 1] \<and> wf_array (running_mean ?state)
        \<and> shape (running_var ?state) = [shape ?x ! 1] \<and> wf_array (running_var ?state)
        \<and> param_ok (shape ?x ! 1) (en_weight ?self) \<and> param_ok (shape ?x ! 1) (en_bias ?self)
        \<and> (\<forall>name a. en_axis_name ?self = Some name \<longrightarrow> (\<lambda>_ a. a) name a = a)"
    by (simp add: wf_array_def py_index_def ndim_def param_ok_def)
  from EvalNorm_state_unchanged [of "\<lambda>_ a. a" ?self ?x ?state 1] h
  show ?thesis by blast
qed

text \<open>
  C2. \<open>tree_eval\<close> returns a tree of the same structure in which every RandomCrop and
  RandomZoom leaf is replaced by Identity, every BatchNorm leaf by an EvalNorm with the
  same \<open>in_features\<close>, \<open>eps\<close>, \<open>axis\<close>, \<open>axis_name\<close>, weight and bias, and every leaf
  of a class without a registered rule is returned unchanged.
\<close>

theorem tree_eval_leaves:
  "treedef (tree_eval t) = treedef t
   \<and> length (leaves (tree_eval t)) = length (leaves t)
   \<and> (\<forall>i < length (leaves t).
        (class_of (leaves t ! i) \<in> set random_classes \<longrightarrow> leaves (tree_eval t) ! i = Identity)
      \<and> (\<forall>b. leaves t ! i = BatchNormLayer b \<longrightarrow>
            (\<exists>e. leaves (tree_eval t) ! i = EvalNormLayer e
               \<and> en_in_features e = bn_in_features b \<and> en_eps e = bn_eps b
               \<and> en_axis e = bn_axis b \<and> en_axis_name e = bn_axis_name b
               \<and> en_weight e = bn_weight b \<and> en_bias e = bn_bias b))
      \<and> (class_of (leaves t ! i) \<notin> fst ` set eval_registry \<longrightarrow>
            leaves (tree_eval t) ! i = leaves t ! i))"
proof -
  have l: "leaves (tree_eval t) = map eval_dispatcher (leaves t)"
    by (simp add: tree_eval_def leaves_tree_map)
  have bn: "\<exists>e. eval_dispatcher (BatchNormLayer b) = EvalNormLayer e
               \<and> en_in_features e = bn_in_features b \<and> en_eps e = bn_eps b
               \<and> en_axis e = bn_axis b \<and> en_axis_name e = bn_axis_name b
               \<and> en_weight e = bn_weight b \<and> en_bias e = bn_bias b" for b
    by (simp add: eval_dispatcher_BatchNorm EvalNorm_init_def resolve_init_def)
  have s: "treedef (tree_eval t) = treedef t"
    by (simp add: tree_eval_def treedef_tree_map)
  show ?thesis
    unfolding l using s bn
    by (auto simp: eval_dispatcher_random eval_dispatcher_unregistered)
qed

theorem tree_eval_leaves_witness:
  "leaves (tree_eval (Node [Leaf (RandomZoom1D (0, 1)),
       Node [Leaf (BatchNormLayer \<lparr>bn_in_features = 2, bn_momentum = 1 / 2, bn_eps = 3,
                bn_weight_init = InitNone, bn_bias_init = InitNone, bn_axis = 1,
                bn_axis_name = None, bn_weight = None, bn_bias = None\<rparr>)],
       Leaf (Flatten 0 (- 1))])) ! 0 = Identity
   \<and> (\<exists>e. leaves (tree_eval (Node [Leaf (RandomZoom1D (0, 1)),
       Node [Leaf (BatchNormLayer \<lparr>bn_in_features = 2, bn_momentum = 1 / 2, bn_eps = 3,
                bn_weight_init = InitNone, bn_bias_init = InitNone, bn_axis = 1,
                bn_axis_name = None, bn_weight = None, bn_bias = None\<rparr>)],
       Leaf (Flatten 0 (- 1))])) ! 1 = EvalNormLayer e
        \<and> en_in_features e = 2 \<and> en_eps e = 3 \<and> en_axis e = 1 \<and> en_weight e = None)
   \<and> leaves (tree_eval (Node [Leaf (RandomZoom1D (0, 1)),
       Node [Leaf (BatchNormLayer \<lparr>bn_in_features = 2, bn_momentum = 1 / 2, bn_eps = 3,
                bn_weight_init = InitNone, bn_bias_init = InitNone, bn_axis = 1,
                bn_axis_name = None, bn_weight = None, bn_bias = None\<rparr>)],
       Leaf (Flatten 0 (- 1))])) ! 2 = Flatten 0 (- 1)"
proof -
  let ?b = "\<lparr>bn_in_features = 2, bn_momentum = 1 / 2, bn_eps = 3,
                bn_weight_init = InitNone, bn_bias_init = InitNone, bn_axis = 1,
                bn_axis_name = None, bn_weight = None, bn_bias = None\<rparr>"
  let ?t = "Node [Leaf (RandomZoom1D (0, 1)), Node [Leaf (BatchNormLayer ?b)],
                  Leaf (Flatten 0 (- 1))]"
  have lv: "leaves ?t = [RandomZoom1D (0, 1), BatchNormLayer ?b, Flatten 0 (- 1)]" by simp
  note th = tree_eval_leaves [of ?t, THEN conjunct2, THEN conjunct2, unfolded lv]
  have a: "leaves (tree_eval ?t) ! 0 = Identity"
    using th [THEN spec, of 0] by (simp add: random_classes_def)
  have b: "\<exists>e. leaves (tree_eval ?t) ! 1 = EvalNormLayer e
        \<and> en_in_features e = 2 \<and> en_eps e = 3 \<and> en_axis e = 1 \<and> en_weight e = None"
    using th [THEN spec, of 1] by auto
  have c: "leaves (tree_eval ?t) ! 2 = Flatten 0 (- 1)"
    using th [THEN spec, of 2] by (simp add: eval_registry_def)
  from a b c show ?thesis by blast
qed

text \<open>
  C3, as amended. For positive \<open>in_features\<close> and \<open>groups\<close>, a valid \<open>eps\<close> (not
  negative) and valid initializer arguments, the GroupNorm constructor raises ValueError
  if and only if \<open>in_features\<close> is not divisible by \<open>groups\<close>, and returns a layer
  otherwise; in the layer it returns, the weight (the bias) is \<open>None\<close> if its
  initializer argument is \<open>None\<close>, and is an array of shape \<open>(in_features,)\<close> if not.
\<close>

theorem GroupNorm_init_raises_iff:
  assumes "0 < in_features" and "0 < groups" and "0 \<le> eps"
    and "valid_init weight_init k [nat in_features]"
    and "valid_init bias_init k [nat in_features]"
  shows "(GroupNorm_init in_features k groups eps weight_init bias_init = Inl ValueError
            \<longleftrightarrow> in_features mod groups \<noteq> 0)
       \<and> (in_features mod groups = 0
            \<longrightarrow> (\<exists>layer. GroupNorm_init in_features k groups eps weight_init bias_init
                            = Inr layer))
       \<and> (\<forall>layer. GroupNorm_init in_features k groups eps weight_init bias_init = Inr layer \<longrightarrow>
            (if weight_init = InitNone then gn_weight layer = None
             else \<exists>w. gn_weight layer = Some w \<and> shape w = [nat in_features])
          \<and> (if bias_init = InitNone then gn_bias layer = None
             else \<exists>b. gn_bias layer = Some b \<and> shape b = [nat in_features]))"
  using assms
  by (auto simp: GroupNorm_init_def positive_int_cb_def valid_init_def resolve_init_def
      split: InitType.splits option.splits)

theorem GroupNorm_init_raises_iff_witness:
  "GroupNorm_init 5 0 2 0 (InitCallable init_ones) InitNone = Inl ValueError
   \<and> (\<exists>layer w. GroupNorm_init 4 0 2 0 (InitCallable init_ones) InitNone = Inr layer
         \<and> gn_weight layer = Some w \<and> shape w = [4] \<and> gn_bias layer = None)"
proof -
  have v: "valid_init (InitCallable init_ones) 0 [nat 5]"
    "valid_init (InitCallable init_ones) 0 [nat 4]"
    "valid_init (InitNone :: real InitType) 0 [nat 5]"
    "valid_init (InitNone :: real InitType) 0 [nat 4]"
    by (simp_all add: valid_init_def init_ones_def)
  have b: "GroupNorm_init 5 0 2 0 (InitCallable init_ones) InitNone = Inl ValueError"
    using GroupNorm_init_raises_iff [of 5 2 0 "InitCallable init_ones" 0 InitNone] v
    by simp
  note th = GroupNorm_init_raises_iff [of 4 2 0 "InitCallable init_ones" 0 InitNone]
  obtain layer where l: "GroupNorm_init 4 0 2 0 (InitCallable init_ones) InitNone = Inr layer"
    using th v by auto
  have "(if (InitCallable init_ones :: real InitType) = InitNone then gn_weight layer = None
         else \<exists>w. gn_weight layer = Some w \<and> shape w = [nat 4])
      \<and> (if (InitNone :: real InitType) = InitNone then gn_bias layer = None
         else \<exists>b. gn_bias layer = Some b \<and> shape b = [nat 4])"
    using th v l by simp
  then have "\<exists>w. gn_weight layer = Some w \<and> shape w = [4]" "gn_bias layer = None"
    by simp_all
  then show ?thesis using b l by blast
qed

text \<open>
  C3 as stated fails: with the initializers \<open>None\<close>, which the constructor documents,
  it does not raise and the layer has neither weight nor bias, so these have no shape.
\<close>

theorem GroupNorm_init_weight_None:
  "\<exists>layer. GroupNorm_init 4 0 2 (1 / 100000) InitNone InitNone = Inr layer
     \<and> gn_weight layer = None \<and> gn_bias layer = None"
  by (simp add: GroupNorm_init_def positive_int_cb_def resolve_init_def)

text \<open>
  C4. For a Multilinear layer with \<open>in_features\<close> of length \<open>d\<close>, \<open>1 \<le> d \<le> 51\<close>, and
  \<open>d\<close> inputs whose last axes have the extents \<open>in_features\<close> and whose leading axes
  broadcast to the shape \<open>bsh\<close>, the call returns \<open>y\<close> of shape \<open>(*bsh, out_features)\<close>
  with \<open>y[..., j]\<close> the sum over \<open>a_1..a_d\<close> of
  \<open>x_1[..., a_1] * ... * x_d[..., a_d] * weight[a_1, ..., a_d, j]\<close>, plus \<open>bias[j]\<close>
  when the bias is present: the einsum string generated for degree \<open>d\<close> denotes this
  contraction.
\<close>

theorem Multilinear_call_contraction:
  assumes d1: "1 \<le> length (ml_in_features self)" and d51: "length (ml_in_features self) \<le> 51"
    and lx: "length xs = length (ml_in_features self)" and lb: "length batches = length xs"
    and shx: "\<forall>k < length xs. shape (xs ! k) = batches ! k @ [ml_in_features self ! k]"
    and bc: "broadcast_all batches = Some bsh"
    and shw: "shape (ml_weight self) = ml_in_features self @ [ml_out_features self]"
    and bias: "param_ok (ml_out_features self) (ml_bias self)"
  shows "\<exists>y. Multilinear_call self xs = Inr y
           \<and> shape y = bsh @ [ml_out_features self]
           \<and> (\<forall>b j. valid_index bsh b \<and> j < ml_out_features self \<longrightarrow>
                 item y (b @ [j])
                 = opt_shift (ml_bias self) j
                     (\<Sum>a\<leftarrow>indices (ml_in_features self).
                        (\<Prod>k\<leftarrow>[0..<length xs].
                           item (xs ! k) (bcast_index (batches ! k) b @ [a ! k]))
                        * item (ml_weight self) (a @ [j])))"
proof -
  let ?fs = "ml_in_features self" and ?out = "ml_out_features self" and ?w = "ml_weight self"
  let ?d = "length ?fs"
  let ?as = "take ?d alpha" and ?z = "alpha ! ?d"
  let ?B = "\<lambda>idx. \<Sum>a\<leftarrow>indices ?fs.
               (\<Prod>k\<leftarrow>[0..<length xs].
                  item (xs ! k) (bcast_index (batches ! k) (take (length bsh) idx) @ [a ! k]))
               * item ?w (a @ [idx ! length bsh])"
  let ?y = "tabulate (bsh @ [?out]) ?B"
  obtain s where s: "multilinear_einsum_string (int ?d) = Inr s"
    and parse: "parse_einsum s = Inr (map (\<lambda>c. (True, [c])) ?as @ [(False, ?as @ [?z])], (True, [?z]))"
    using multilinear_einsum_string_parse[OF d1 d51] by blast
  have dlt: "?d < length alpha" using d51 by (simp add: length_alpha)
  have "distinct (take (Suc ?d) alpha)" using distinct_alpha by (rule distinct_take)
  then have dist: "distinct (?as @ [?z])" using dlt by (simp add: take_Suc_conv_app_nth)
  have la: "length ?as = length xs" using dlt lx by simp
  have es: "einsum s (xs @ [?w]) = Inr ?y"
    using parse dist la lx[symmetric] lb shx shw bc by (rule einsum_multilinear)
  have el: "item ?y (b @ [j]) = (\<Sum>a\<leftarrow>indices ?fs.
                        (\<Prod>k\<leftarrow>[0..<length xs].
                           item (xs ! k) (bcast_index (batches ! k) b @ [a ! k]))
                        * item ?w (a @ [j]))"
    and vb: "valid_index (bsh @ [?out]) (b @ [j])"
    if "valid_index bsh b" "j < ?out" for b j
  proof -
    have lb': "length b = length bsh" using that(1) by (rule valid_index_length)
    have nth: "(b @ [j]) ! length bsh = j" using lb' by (metis nth_append_length)
    show vb: "valid_index (bsh @ [?out]) (b @ [j])"
      using that lb' nth by (simp add: valid_index_snoc)
    show "item ?y (b @ [j]) = (\<Sum>a\<leftarrow>indices ?fs.
                        (\<Prod>k\<leftarrow>[0..<length xs].
                           item (xs ! k) (bcast_index (batches ! k) b @ [a ! k]))
                        * item ?w (a @ [j]))"
      using vb lb' nth by (simp add: item_tabulate)
  qed
  show ?thesis
  proof (cases "ml_bias self")
    case None
    have "Multilinear_call self xs = Inr ?y"
      by (simp add: Multilinear_call_def s es None)
    then show ?thesis using el by (simp add: None opt_shift_def)
  next
    case (Some c)
    then have c: "shape c = [?out]" using bias by (simp add: param_ok_def)
    let ?y2 = "tabulate (bsh @ [?out]) (\<lambda>idx. item ?y idx + item c [idx ! length bsh])"
    have "binop (+) ?y c = Inr ?y2"
      by (rule binop_trailing) (simp_all add: c)
    then have call: "Multilinear_call self xs = Inr ?y2"
      by (simp add: Multilinear_call_def s es Some)
    have "item ?y2 (b @ [j]) = item ?y (b @ [j]) + item c [j]"
      if "valid_index bsh b" "j < ?out" for b j
    proof -
      have "length b = length bsh" using that(1) by (rule valid_index_length)
      then have "(b @ [j]) ! length bsh = j" by (metis nth_append_length)
      then show ?thesis using vb[OF that] by (simp add: item_tabulate)
    qed
    then show ?thesis using call el by (simp add: Some opt_shift_def)
  qed
qed

theorem Multilinear_call_contraction_witness:
  "\<exists>y. Multilinear_call
         \<lparr>ml_weight = NDArray [2, 2, 1] [1, 10, 100, 1000], ml_bias = Some (NDArray [1] [5]),
          ml_in_features = [2, 2], ml_out_features = 1\<rparr>
         [NDArray [2] [1, 2], NDArray [2] [1, 1]] = Inr y
     \<and> shape y = [1] \<and> item y [0] = 2216"
proof -
  let ?self = "\<lparr>ml_weight = NDArray [2, 2, 1] [1, 10, 100, 1000 :: real],
                 ml_bias = Some (NDArray [1] [5]),
                 ml_in_features = [2, 2], ml_out_features = 1\<rparr>"
  let ?xs = "[NDArray [2] [1, 2], NDArray [2] [1, 1 :: real]]"
  have h1: "1 \<le> length (ml_in_features ?self)" by simp
  have h2: "length (ml_in_features ?self) \<le> 51" by simp
  have h3: "length ?xs = length (ml_in_features ?self)" by simp
  have h4: "length [[], [] :: nat list] = length ?xs" by simp
  have h5: "\<forall>k < length ?xs. shape (?xs ! k) = [[], []] ! k @ [ml_in_features ?self ! k]"
    by (auto simp: less_Suc_eq)
  have h6: "broadcast_all [[], []] = Some []" by (simp add: broadcast_shapes_def)
  have h7: "shape (ml_weight ?self) = ml_in_features ?self @ [ml_out_features ?self]" by simp
  have h8: "param_ok (ml_out_features ?self) (ml_bias ?self)" by (simp add: param_ok_def)
  from Multilinear_call_contraction [OF h1 h2 h3 h4 h5 h6 h7 h8] obtain y where
    y: "Multilinear_call ?self ?xs = Inr y" "shape y = [] @ [ml_out_features ?self]"
       "\<forall>b j. valid_index [] b \<and> j < ml_out_features ?self \<longrightarrow>
                 item y (b @ [j])
                 = opt_shift (ml_bias ?self) j
                     (\<Sum>a\<leftarrow>indices (ml_in_features ?self).
                        (\<Prod>k\<leftarrow>[0..<length ?xs].
                           item (?xs ! k) (bcast_index ([[], []] ! k) b @ [a ! k]))
                        * item (ml_weight ?self) (a @ [j]))"
    by blast
  have ind: "indices [2, 2] = [[0, 0], [0, 1], [1, 0], [1, 1]]"
    by (simp add: upt_rec)
  have "valid_index [] [] \<and> 0 < ml_out_features ?self" by simp
  with y(3) have "item y ([] @ [0])
                 = opt_shift (ml_bias ?self) 0
                     (\<Sum>a\<leftarrow>indices (ml_in_features ?self).
                        (\<Prod>k\<leftarrow>[0..<length ?xs].
                           item (?xs ! k) (bcast_index ([[], []] ! k) [] @ [a ! k]))
                        * item (ml_weight ?self) (a @ [0]))"
    by blast
  then have "item y [0] = 2216"
    unfolding Multilinear.select_convs ind
    by (simp add: opt_shift_def item_def upt_rec)
  then show ?thesis using y(1,2) by simp
qed

end
